theory Spec2Isabelle
  imports Main "HOL-Library.Sublist" "HOL-Library.AList"
begin

section \<open>Python text primitives used by the wrapper\<close>

text \<open>
  Texts are ASCII strings, one \<^typ>\<open>char\<close> for each character of the Python \<open>str\<close>.
  The separators handed to \<open>split\<close> and \<open>replace\<close> by the wrapper are non-empty
  constants; an empty separator never matches in the model.
\<close>

text \<open>\<open>str.isspace\<close> on ASCII: tab, line feed, vertical tab, form feed, carriage
  return, the four separators 0x1C..0x1F and the blank.\<close>

definition py_isspace :: "char \<Rightarrow> bool" where
  "py_isspace c = (let n = (of_char c :: nat) in (9 \<le> n \<and> n \<le> 13) \<or> (28 \<le> n \<and> n \<le> 32))"

text \<open>\<open>s.strip()\<close>\<close>

definition py_strip :: "string \<Rightarrow> string" where
  "py_strip s = rev (dropWhile py_isspace (rev (dropWhile py_isspace s)))"

text \<open>\<open>s.split(sep)\<close>: the pieces between the leftmost, non-overlapping occurrences
  of \<open>sep\<close>; never the empty list.\<close>

function py_split :: "string \<Rightarrow> string \<Rightarrow> string list" where
  "py_split sep [] = [[]]"
| "py_split sep (c # cs) =
     (if sep \<noteq> [] \<and> prefix sep (c # cs)
      then [] # py_split sep (drop (length sep) (c # cs))
      else (case py_split sep cs of
              [] \<Rightarrow> [[c]]
            | piece # pieces \<Rightarrow> (c # piece) # pieces))"
  by pat_completeness auto
termination
  by (relation "measure (\<lambda>(sep, s). length s)") (auto simp: neq_Nil_conv)

text \<open>\<open>s.replace(old, new)\<close>: every leftmost, non-overlapping occurrence replaced.\<close>

function py_replace :: "string \<Rightarrow> string \<Rightarrow> string \<Rightarrow> string" where
  "py_replace old new [] = []"
| "py_replace old new (c # cs) =
     (if old \<noteq> [] \<and> prefix old (c # cs)
      then new @ py_replace old new (drop (length old) (c # cs))
      else c # py_replace old new cs)"
  by pat_completeness auto
termination
  by (relation "measure (\<lambda>(old, new, s). length s)") (auto simp: neq_Nil_conv)

text \<open>\<open>sep.join(pieces)\<close>\<close>

fun py_join :: "string \<Rightarrow> string list \<Rightarrow> string" where
  "py_join sep [] = []"
| "py_join sep [piece] = piece"
| "py_join sep (piece # others) = piece @ sep @ py_join sep others"

text \<open>\<open>s.upper()\<close> on ASCII letters.\<close>

definition upper_char :: "char \<Rightarrow> char" where
  "upper_char c = (let n = (of_char c :: nat) in if 97 \<le> n \<and> n \<le> 122 then char_of (n - 32) else c)"

definition py_upper :: "string \<Rightarrow> string" where
  "py_upper s = map upper_char s"

definition lower_char :: "char \<Rightarrow> char" where
  "lower_char c = (let n = (of_char c :: nat) in if 65 \<le> n \<and> n \<le> 90 then char_of (n + 32) else c)"

section \<open>Errors and values\<close>

text \<open>
  The exceptions the pipeline can raise. \<open>CalledProcessError\<close> carries the return code and
  the two streams handed to its constructor (\<open>None\<close> when \<open>communicate()\<close> has no pipe to
  read). \<open>StoreError\<close> stands for whatever \<open>Hit.save()\<close> raises when the store rejects a row.
\<close>

datatype error =
    ValueError
  | IndexError
  | StoreError
  | CalledProcessError int "string option" "string option"

text \<open>
  A property value is the text itself, or the float that the built-in \<open>float\<close> makes of
  a literal. A float is kept as its literal (whitespace and underscores removed); its
  numeric value is not modelled.
\<close>

datatype py_value = PyStr string | PyFloat string

definition is_digit :: "char \<Rightarrow> bool" where
  "is_digit c = (let n = (of_char c :: nat) in 48 \<le> n \<and> n \<le> 57)"

text \<open>The underscore rule of \<open>float\<close>: an underscore stands between two digits.\<close>

fun underscores_ok :: "char \<Rightarrow> string \<Rightarrow> bool" where
  "underscores_ok prev [] = (prev \<noteq> CHR ''_'')"
| "underscores_ok prev (c # cs) =
     ((if c = CHR ''_'' then is_digit prev else (prev = CHR ''_'' \<longrightarrow> is_digit c))
      \<and> underscores_ok c cs)"

definition drop_sign :: "string \<Rightarrow> string" where
  "drop_sign s = (case s of [] \<Rightarrow> [] | c # cs \<Rightarrow> if c = CHR ''+'' \<or> c = CHR ''-'' then cs else s)"

definition exponent_ok :: "string \<Rightarrow> bool" where
  "exponent_ok s =
     (case s of
        [] \<Rightarrow> True
      | c # cs \<Rightarrow> (c = CHR ''e'' \<or> c = CHR ''E'')
                  \<and> drop_sign cs \<noteq> [] \<and> list_all is_digit (drop_sign cs))"

definition decimal_ok :: "string \<Rightarrow> bool" where
  "decimal_ok s =
     (let int_part = takeWhile is_digit s;
          after_int = dropWhile is_digit s
      in case after_int of
           [] \<Rightarrow> int_part \<noteq> []
         | c # cs \<Rightarrow>
             if c = CHR ''.''
             then (int_part \<noteq> [] \<or> takeWhile is_digit cs \<noteq> []) \<and> exponent_ok (dropWhile is_digit cs)
             else int_part \<noteq> [] \<and> exponent_ok after_int)"

definition float_literal :: "string \<Rightarrow> bool" where
  "float_literal s =
     (let body = drop_sign s
      in map lower_char body \<in> {''inf'', ''infinity'', ''nan''} \<or> decimal_ok body)"

text \<open>\<open>float(s)\<close>: \<open>ValueError\<close> unless the trimmed text is a float literal.\<close>

definition py_float :: "string \<Rightarrow> error + py_value" where
  "py_float s =
     (let t = py_strip s
      in if underscores_ok (CHR 0x00) t \<and> float_literal (filter (\<lambda>c. c \<noteq> CHR ''_'') t)
         then Inr (PyFloat (filter (\<lambda>c. c \<noteq> CHR ''_'') t))
         else Inl ValueError)"

section \<open>Property extraction\<close>

definition delimiter :: string where
  "delimiter = ''$$$$\<newline>''"

text \<open>\<open>mol_string.split('\n')[0].strip()\<close>\<close>

definition get_mol_string_name :: "string \<Rightarrow> error + string" where
  "get_mol_string_name mol_string =
     (case py_split ''\<newline>'' mol_string of
        [] \<Rightarrow> Inl IndexError
      | line # _ \<Rightarrow> Inr (py_strip line))"

text \<open>\<open>[e.strip() for e in element.replace('$$$$', '').split('>\n')]\<close>\<close>

definition property_pair :: "string \<Rightarrow> string list" where
  "property_pair element = map py_strip (py_split (''>\<newline>'') (py_replace ''$$$$'' [] element))"

text \<open>The body of the loop over \<open>mol_string.split('> <')\<close>: the first element whose
  \<open>property_pair[0]\<close> is the property decides; \<open>property_pair[1]\<close> raises \<open>IndexError\<close>
  when the pair has one entry.\<close>

fun scan_elements ::
  "string \<Rightarrow> (string \<Rightarrow> error + py_value) option \<Rightarrow> string list \<Rightarrow> error + py_value option" where
  "scan_elements prop cast_to [] = Inr None"
| "scan_elements prop cast_to (element # rest) =
     (case property_pair element of
        [] \<Rightarrow> Inl IndexError
      | key # others \<Rightarrow>
          if key \<noteq> prop then scan_elements prop cast_to rest
          else (case others of
                  [] \<Rightarrow> Inl IndexError
                | text # _ \<Rightarrow>
                    (case cast_to of
                       None \<Rightarrow> Inr (Some (PyStr text))
                     | Some cast \<Rightarrow>
                         (case cast text of
                            Inl e \<Rightarrow> Inl e
                          | Inr v \<Rightarrow> Inr (Some v)))))"

definition get_mol_string_prop ::
  "string \<Rightarrow> string \<Rightarrow> (string \<Rightarrow> error + py_value) option \<Rightarrow> error + py_value option" where
  "get_mol_string_prop prop mol_string cast_to =
     scan_elements prop cast_to (py_split ''> <'' mol_string)"

section \<open>Building and storing hits\<close>

text \<open>
  Modelled from the spec: the \<open>Status\<close> enumeration of \<open>fast_grow.models\<close>, which the
  tasks assign from; the spec lists PENDING, RUNNING, SUCCESS and FAILURE.
\<close>

datatype status = PENDING | RUNNING | SUCCESS | FAILURE

text \<open>
  Of a \<open>Growing\<close> the pipeline reads the names of the complexes of its ensemble, in the
  order of \<open>complex_set.all()\<close>, and writes the status.
\<close>

record growing =
  complex_set :: "string list"
  status :: status

text \<open>The fields \<open>add_hits\<close> gives a \<open>Hit\<close>; \<open>ensemble_scores\<close> is a \<open>dict\<close>, kept in
  insertion order.\<close>

record hit =
  name :: string
  score :: "py_value option"
  file_string :: string
  file_type :: string
  ensemble_scores :: "(string \<times> py_value option) list"

text \<open>\<open>[m + '$$$$\n' for m in data.split('$$$$\n') if m.strip()]\<close>\<close>

definition mol_strings :: "string \<Rightarrow> string list" where
  "mol_strings data =
     map (\<lambda>m. m @ delimiter) (filter (\<lambda>m. py_strip m \<noteq> []) (py_split delimiter data))"

text \<open>The loop over \<open>complex_set.all()\<close> that fills \<open>ensemble_scores\<close>.\<close>

fun collect_scores ::
  "string list \<Rightarrow> string \<Rightarrow> (string \<times> py_value option) list
     \<Rightarrow> error + (string \<times> py_value option) list" where
  "collect_scores [] mol_string scores = Inr scores"
| "collect_scores (cmplx # others) mol_string scores =
     (case get_mol_string_prop (py_upper cmplx) mol_string (Some py_float) of
        Inl e \<Rightarrow> Inl e
      | Inr v \<Rightarrow> collect_scores others mol_string (AList.update cmplx v scores))"

text \<open>One pass of the loop body of \<open>add_hits\<close> up to the constructor of \<open>Hit\<close>.\<close>

definition make_hit :: "growing \<Rightarrow> string \<Rightarrow> error + hit" where
  "make_hit g mol_string =
     (case get_mol_string_name mol_string of
        Inl e \<Rightarrow> Inl e
      | Inr full_name \<Rightarrow>
          (case get_mol_string_prop ''Score'' mol_string (Some py_float) of
             Inl e \<Rightarrow> Inl e
           | Inr hit_score \<Rightarrow>
               (case (if length (complex_set g) > 1
                      then collect_scores (complex_set g) mol_string []
                      else Inr []) of
                  Inl e \<Rightarrow> Inl e
                | Inr scores \<Rightarrow>
                    Inr \<lparr>name = take 254 full_name, score = hit_score,
                         file_string = mol_string, file_type = ''sdf'',
                         ensemble_scores = scores\<rparr>)))"

text \<open>
  The loop of \<open>add_hits\<close> over the mol strings of one file. The table of hits is a list
  in insertion order. \<open>Hit.save()\<close> belongs to the model layer, which is not part of the
  pipeline: \<open>accepts\<close> says which rows the store takes, and a row it refuses raises.
\<close>

fun save_hits :: "(hit \<Rightarrow> bool) \<Rightarrow> growing \<Rightarrow> string list \<Rightarrow> hit list \<Rightarrow> error option \<times> hit list" where
  "save_hits accepts g [] table = (None, table)"
| "save_hits accepts g (mol_string # others) table =
     (case make_hit g mol_string of
        Inl e \<Rightarrow> (Some e, table)
      | Inr h \<Rightarrow>
          if accepts h then save_hits accepts g others (table @ [h])
          else (Some StoreError, table))"

definition add_hits :: "(hit \<Rightarrow> bool) \<Rightarrow> growing \<Rightarrow> string \<Rightarrow> hit list \<Rightarrow> error option \<times> hit list" where
  "add_hits accepts g data table = save_hits accepts g (mol_strings data) table"

text \<open>
  Modelled from the spec: the store behind \<open>Hit.save()\<close>, whose model class is not part of
  the pipeline. The spec makes the primary score of a hit a required number; this store takes
  the rows that have one.
\<close>

definition requires_score :: "hit \<Rightarrow> bool" where
  "requires_score h = (score h \<noteq> None)"

section \<open>Polling the results directory\<close>

text \<open>
  What the pipeline does to the world, in order: starting the process, a scan of the
  directory (one call of \<open>process_hits\<close>), a call of \<open>add_hits\<close> on a file, the sleep,
  the answer of \<open>process.poll()\<close>, the test of \<open>process.returncode\<close>, the call of
  \<open>process.communicate()\<close>, and a saved status.
\<close>

datatype event =
    Popen
  | Scan
  | AddHits string
  | Sleep
  | Poll "int option"
  | CheckExit int
  | Communicate
  | Save status

text \<open>
  The state of one run: the set \<open>seen\<close> of \<open>FastGrowWrapper.grow\<close>, the table of hits,
  and the events so far.
\<close>

record run_state =
  seen :: "string set"
  db :: "hit list"
  trace :: "event list"

text \<open>A listing is what \<open>glob('*.sdf')\<close> yields at one moment, each path with the text
  that reading the file gives then.\<close>

type_synonym listing = "(string \<times> string) list"

text \<open>The loop of \<open>process_hits\<close> over the listing.\<close>

fun process_files ::
  "(hit \<Rightarrow> bool) \<Rightarrow> growing \<Rightarrow> listing \<Rightarrow> run_state \<Rightarrow> error option \<times> run_state" where
  "process_files accepts g [] st = (None, st)"
| "process_files accepts g ((hit_file, data) # others) st =
     (if hit_file \<in> seen st then process_files accepts g others st
      else (case add_hits accepts g data (db st) of
              (Some e, table) \<Rightarrow>
                (Some e, st\<lparr>db := table, trace := trace st @ [AddHits hit_file]\<rparr>)
            | (None, table) \<Rightarrow>
                process_files accepts g others
                  (st\<lparr>seen := insert hit_file (seen st), db := table,
                      trace := trace st @ [AddHits hit_file]\<rparr>)))"

text \<open>\<open>process_hits\<close>: the loop inside \<open>transaction.atomic()\<close>; an exception leaving the
  block rolls the table back to what it was on entry.\<close>

definition process_hits ::
  "(hit \<Rightarrow> bool) \<Rightarrow> growing \<Rightarrow> listing \<Rightarrow> run_state \<Rightarrow> error option \<times> run_state" where
  "process_hits accepts g files st =
     (case process_files accepts g files (st\<lparr>trace := trace st @ [Scan]\<rparr>) of
        (Some e, st') \<Rightarrow> (Some e, st'\<lparr>db := db st\<rparr>)
      | (None, st') \<Rightarrow> (None, st'))"

text \<open>
  The world of one run: for each turn of the \<open>while\<close> loop the listing its scan finds and
  the answer \<open>process.poll()\<close> gives after the sleep, and the listing that the scan after
  the loop finds. The turns after the first answer that is not \<open>None\<close> are never looked at.
\<close>

record world =
  cycles :: "(listing \<times> int option) list"
  drain :: listing

text \<open>The \<open>while True\<close> loop. It ends by an exception or with the return code; when the
  turns run out while the process still runs, the result is \<open>None\<close>.\<close>

fun poll_loop ::
  "(hit \<Rightarrow> bool) \<Rightarrow> growing \<Rightarrow> (listing \<times> int option) list \<Rightarrow> run_state
     \<Rightarrow> ((error + int) \<times> run_state) option" where
  "poll_loop accepts g [] st = None"
| "poll_loop accepts g ((files, polled) # later) st =
     (case process_hits accepts g files st of
        (Some e, st') \<Rightarrow> Some (Inl e, st')
      | (None, st') \<Rightarrow>
          (case polled of
             None \<Rightarrow> poll_loop accepts g later (st'\<lparr>trace := trace st' @ [Sleep, Poll None]\<rparr>)
           | Some returncode \<Rightarrow>
               Some (Inr returncode, st'\<lparr>trace := trace st' @ [Sleep, Poll (Some returncode)]\<rparr>)))"

text \<open>
  \<open>FastGrowWrapper.grow\<close> from \<open>subprocess.Popen(args)\<close> on, for a process that starts.
  The process is started without pipes, so \<open>communicate()\<close> returns \<open>(None, None)\<close>.
\<close>

definition start :: "hit list \<Rightarrow> run_state" where
  "start table = \<lparr>seen = {}, db = table, trace = [Popen]\<rparr>"

definition wrapper_grow ::
  "(hit \<Rightarrow> bool) \<Rightarrow> growing \<Rightarrow> world \<Rightarrow> hit list \<Rightarrow> (error option \<times> run_state) option" where
  "wrapper_grow accepts g w table =
     (case poll_loop accepts g (cycles w) (start table) of
        None \<Rightarrow> None
      | Some (Inl e, st) \<Rightarrow> Some (Some e, st)
      | Some (Inr returncode, st) \<Rightarrow>
          (case process_hits accepts g (drain w) st of
             (Some e, st') \<Rightarrow> Some (Some e, st')
           | (None, st') \<Rightarrow>
               if returncode > 0
               then Some (Some (CalledProcessError returncode None None),
                          st'\<lparr>trace := trace st' @ [CheckExit returncode, Communicate]\<rparr>)
               else Some (None, st'\<lparr>trace := trace st' @ [CheckExit returncode]\<rparr>)))"

text \<open>The task \<open>grow\<close> of \<open>tasks.py\<close>, from the \<open>try\<close> on.\<close>

definition task_grow ::
  "(hit \<Rightarrow> bool) \<Rightarrow> growing \<Rightarrow> world \<Rightarrow> hit list
     \<Rightarrow> (error option \<times> growing \<times> run_state) option" where
  "task_grow accepts g w table =
     (case wrapper_grow accepts g w table of
        None \<Rightarrow> None
      | Some (None, st) \<Rightarrow>
          Some (None, g\<lparr>status := SUCCESS\<rparr>, st\<lparr>trace := trace st @ [Save SUCCESS]\<rparr>)
      | Some (Some e, st) \<Rightarrow>
          Some (Some e, g\<lparr>status := FAILURE\<rparr>, st\<lparr>trace := trace st @ [Save FAILURE]\<rparr>))"

section \<open>Notions the properties are stated with\<close>

text \<open>The first line of a record: the text before its first line feed.\<close>

definition first_line :: "string \<Rightarrow> string" where
  "first_line mol_string = takeWhile (\<lambda>c. c \<noteq> CHR ''\<newline>'') mol_string"

text \<open>The key of one element of \<open>mol_string.split('> <')\<close>, as the loop of
  \<open>get_mol_string_prop\<close> reads it: \<open>property_pair[0]\<close>.\<close>

definition block_key :: "string \<Rightarrow> string" where
  "block_key element = (case property_pair element of [] \<Rightarrow> [] | key # _ \<Rightarrow> key)"

text \<open>The files of a listing that a scan takes up, given the set of seen files: those
  not seen, each path once.\<close>

fun unseen_files :: "string set \<Rightarrow> listing \<Rightarrow> listing" where
  "unseen_files seen_files [] = []"
| "unseen_files seen_files ((hit_file, data) # others) =
     (if hit_file \<in> seen_files then unseen_files seen_files others
      else (hit_file, data) # unseen_files (insert hit_file seen_files) others)"

text \<open>The files of the \<open>add_hits\<close> calls among some events, in order.\<close>

fun ingested :: "event list \<Rightarrow> string list" where
  "ingested [] = []"
| "ingested (AddHits hit_file # events) = hit_file # ingested events"
| "ingested (_ # events) = ingested events"

text \<open>The saved statuses among some events, in order.\<close>

fun saved :: "event list \<Rightarrow> status list" where
  "saved [] = []"
| "saved (Save s # events) = s # saved events"
| "saved (_ # events) = saved events"

text \<open>The events of the turns of the polling loop while the process runs.\<close>

fun loop_event :: "event \<Rightarrow> bool" where
  "loop_event Scan = True"
| "loop_event (AddHits hit_file) = True"
| "loop_event Sleep = True"
| "loop_event (Poll None) = True"
| "loop_event e = False"

section \<open>Facts about the text primitives\<close>

lemma py_split_not_Nil: "py_split sep s \<noteq> []"
  by (induction sep s rule: py_split.induct) (auto split: list.splits)

lemma hd_py_split_prefix: "prefix (hd (py_split sep s)) s"
  by (induction sep s rule: py_split.induct) (auto split: list.splits)

lemma py_join_Cons: "ps \<noteq> [] \<Longrightarrow> py_join sep (p # ps) = p @ sep @ py_join sep ps"
  by (cases ps) auto

lemma py_join_Cons_hd: "ps \<noteq> [] \<Longrightarrow> py_join sep ((c # hd ps) # tl ps) = c # py_join sep ps"
  by (cases ps; cases "tl ps") auto

lemma py_join_py_split: "py_join sep (py_split sep s) = s"
proof (induction sep s rule: py_split.induct)
  case (1 sep)
  show ?case by simp
next
  case (2 sep c cs)
  show ?case
  proof (cases "sep \<noteq> [] \<and> prefix sep (c # cs)")
    case True
    then have "c # cs = sep @ drop (length sep) (c # cs)"
      by (metis append_take_drop_id prefix_def append_eq_conv_conj)
    with True 2(1) show ?thesis
      by (simp add: py_join_Cons py_split_not_Nil del: drop_Suc_Cons)
  next
    case False
    obtain p ps where ps: "py_split sep cs = p # ps"
      using py_split_not_Nil by (cases "py_split sep cs") auto
    from False 2(2) ps show ?thesis
      by (cases ps) auto
  qed
qed

lemma py_split_no_sep:
  assumes "sep \<noteq> []" "piece \<in> set (py_split sep s)"
  shows "\<not> sublist sep piece"
  using assms
proof (induction sep s arbitrary: piece rule: py_split.induct)
  case (1 sep)
  then show ?case by simp
next
  case (2 sep c cs)
  show ?case
  proof (cases "prefix sep (c # cs)")
    case True
    with 2 show ?thesis by auto
  next
    case False
    obtain p ps where ps: "py_split sep cs = p # ps"
      using py_split_not_Nil by (cases "py_split sep cs") auto
    have pre: "prefix p cs" using hd_py_split_prefix[of sep cs] ps by simp
    from False 2(4) ps have "piece = c # p \<or> piece \<in> set ps" by auto
    then show ?thesis
    proof
      assume pc: "piece = c # p"
      have "\<not> sublist sep p" using 2(2)[of p] False 2(3) ps by auto
      moreover have "\<not> prefix sep (c # p)"
        using False pre by (meson Cons_prefix_Cons prefix_order.trans)
      ultimately show ?thesis using pc by (simp add: sublist_Cons_right)
    next
      assume "piece \<in> set ps"
      then show ?thesis using 2(2)[of piece] False 2(3) ps by auto
    qed
  qed
qed

lemma py_strip_Nil_iff: "py_strip s = [] \<longleftrightarrow> (\<forall>c \<in> set s. py_isspace c)"
proof
  assume "py_strip s = []"
  then have all: "\<forall>c \<in> set (dropWhile py_isspace s). py_isspace c"
    by (simp add: py_strip_def dropWhile_eq_Nil_conv)
  have "dropWhile py_isspace s = []"
  proof (rule ccontr)
    assume ne: "dropWhile py_isspace s \<noteq> []"
    then have "\<not> py_isspace (hd (dropWhile py_isspace s))" by (rule hd_dropWhile)
    moreover have "hd (dropWhile py_isspace s) \<in> set (dropWhile py_isspace s)"
      using ne by simp
    ultimately show False using all by blast
  qed
  then show "\<forall>c \<in> set s. py_isspace c" by (simp add: dropWhile_eq_Nil_conv)
next
  assume "\<forall>c \<in> set s. py_isspace c"
  then show "py_strip s = []"
    by (auto simp: py_strip_def dest: set_dropWhileD)
qed

lemma sublist_py_strip: "sublist (py_strip s) s"
proof -
  have "suffix (dropWhile py_isspace s) s" by (rule suffix_dropWhile)
  moreover have "prefix (py_strip s) (dropWhile py_isspace s)"
    unfolding py_strip_def
    by (metis suffix_dropWhile suffix_to_prefix rev_rev_ident)
  ultimately show ?thesis
    by (meson prefix_imp_sublist suffix_imp_sublist sublist_order.order.trans)
qed

lemma prefix_delimiter_append:
  "s \<noteq> [] \<Longrightarrow> prefix delimiter (s @ delimiter) \<longleftrightarrow> prefix delimiter s"
  unfolding delimiter_def
  apply (cases s; simp)
  subgoal for a s1
    apply (cases s1; simp)
    subgoal for b s2
      apply (cases s2; simp)
      subgoal for c s3
        apply (cases s3; simp)
        subgoal for d s4
          apply (cases s4; simp)
          done
        done
      done
    done
  done

lemma py_split_trailing_delimiter:
  "py_split delimiter (s @ delimiter) = py_split delimiter s @ [[]]"
proof (induction "delimiter" s rule: py_split.induct)
  case 1
  show ?case by (simp add: delimiter_def)
next
  case (2 c cs)
  have ne: "delimiter \<noteq> []" by (simp add: delimiter_def)
  show ?case
  proof (cases "prefix delimiter (c # cs)")
    case True
    then have len: "length delimiter \<le> length (c # cs)" by (rule prefix_length_le)
    have "prefix delimiter ((c # cs) @ delimiter)"
      using True prefix_delimiter_append[of "c # cs"] by simp
    then have "py_split delimiter ((c # cs) @ delimiter)
        = [] # py_split delimiter (drop (length delimiter) ((c # cs) @ delimiter))"
      using ne by simp
    also have "drop (length delimiter) ((c # cs) @ delimiter) = drop (length delimiter) (c # cs) @ delimiter"
      using len unfolding drop_append by simp
    also have "py_split delimiter (drop (length delimiter) (c # cs) @ delimiter)
        = py_split delimiter (drop (length delimiter) (c # cs)) @ [[]]"
      using 2(1) True ne by simp
    finally show ?thesis using True ne by simp
  next
    case False
    then have "\<not> prefix delimiter ((c # cs) @ delimiter)"
      using prefix_delimiter_append[of "c # cs"] by simp
    then have "py_split delimiter ((c # cs) @ delimiter)
        = (case py_split delimiter (cs @ delimiter) of [] \<Rightarrow> [[c]] | p # ps \<Rightarrow> (c # p) # ps)"
      by simp
    also have "py_split delimiter (cs @ delimiter) = py_split delimiter cs @ [[]]"
      using 2(2) False by simp
    finally show ?thesis using False
      by (cases "py_split delimiter cs") (auto simp: py_split_not_Nil)
  qed
qed

lemma py_strip_Nil: "py_strip [] = []" by (simp add: py_strip_def)

lemma mol_strings_trailing_delimiter: "mol_strings (data @ delimiter) = mol_strings data"
  by (simp add: mol_strings_def py_split_trailing_delimiter py_strip_Nil)

lemma mol_strings_spec:
  "mol_strings data = map (\<lambda>m. m @ delimiter) (filter (\<lambda>m. \<exists>c \<in> set m. \<not> py_isspace c) (py_split delimiter data))"
  by (simp add: mol_strings_def py_strip_Nil_iff)

lemma prefix_replicate_py_replace:
  assumes "0 < n"
  shows "prefix (replicate k c) (py_replace (replicate n c) [] s) \<Longrightarrow> prefix (replicate k c) s"
proof (induction "replicate n c" "[] :: string" s arbitrary: k rule: py_replace.induct)
  case 1
  then show ?case by simp
next
  case (2 x xs)
  let ?old = "replicate n c"
  have ne: "?old \<noteq> []" using assms by simp
  show ?case
  proof (cases "prefix ?old (x # xs)")
    case True
    then have split: "x # xs = ?old @ drop n (x # xs)"
      by (metis append_eq_conv_conj length_replicate prefix_def)
    from True ne 2(3) have "prefix (replicate k c) (py_replace ?old [] (drop n (x # xs)))"
      by simp
    then have "prefix (replicate k c) (drop n (x # xs))"
      using 2(1) True ne by simp
    then have "prefix (?old @ replicate k c) (?old @ drop n (x # xs))"
      by simp
    then have "prefix (replicate (k + n) c) (x # xs)"
      using split by (simp add: replicate_add [symmetric] add.commute)
    moreover have "prefix (replicate k c) (replicate (k + n) c)"
      by (simp add: replicate_add)
    ultimately show ?thesis using prefix_order.trans by blast
  next
    case False
    with 2(3) have pre: "prefix (replicate k c) (x # py_replace ?old [] xs)" by simp
    show ?thesis
    proof (cases k)
      case 0
      then show ?thesis by simp
    next
      case (Suc j)
      with pre have "x = c" "prefix (replicate j c) (py_replace ?old [] xs)" by auto
      with 2(2)[of j] False Suc show ?thesis by simp
    qed
  qed
qed

lemma py_replace_removes_all:
  assumes "0 < n"
  shows "\<not> sublist (replicate n c) (py_replace (replicate n c) [] s)"
proof (induction "replicate n c" "[] :: string" s rule: py_replace.induct)
  case 1
  show ?case using assms by simp
next
  case (2 x xs)
  let ?old = "replicate n c"
  have ne: "?old \<noteq> []" using assms by simp
  show ?case
  proof (cases "prefix ?old (x # xs)")
    case True
    with 2(1) ne show ?thesis by simp
  next
    case False
    have "\<not> prefix ?old (py_replace ?old [] (x # xs))"
      using prefix_replicate_py_replace[OF assms, of n c "x # xs"] False by blast
    moreover have "\<not> sublist ?old (py_replace ?old [] xs)"
      using 2(2) False by simp
    ultimately show ?thesis using False by (simp add: sublist_Cons_right)
  qed
qed

lemma no_dollars_after_replace: "\<not> sublist ''$$$$'' (py_replace ''$$$$'' [] s)"
proof -
  have "''$$$$'' = replicate 4 (CHR ''$'')" by (simp add: eval_nat_numeral)
  then show ?thesis using py_replace_removes_all[of 4 "CHR ''$''" s] by simp
qed

lemma sublist_py_split: "piece \<in> set (py_split sep s) \<Longrightarrow> sublist piece s"
proof (induction sep s arbitrary: piece rule: py_split.induct)
  case (1 sep)
  then show ?case by simp
next
  case (2 sep c cs)
  show ?case
  proof (cases "sep \<noteq> [] \<and> prefix sep (c # cs)")
    case True
    with 2(3) have "piece = [] \<or> piece \<in> set (py_split sep (drop (length sep) (c # cs)))"
      by auto
    then show ?thesis
    proof
      assume "piece = []" then show ?thesis by simp
    next
      assume "piece \<in> set (py_split sep (drop (length sep) (c # cs)))"
      then have "sublist piece (drop (length sep) (c # cs))" using 2(1) True by blast
      then show ?thesis
        by (meson sublist_drop sublist_order.order.trans)
    qed
  next
    case False
    obtain p ps where ps: "py_split sep cs = p # ps"
      using py_split_not_Nil by (cases "py_split sep cs") auto
    from False 2(3) ps have "piece = c # p \<or> piece \<in> set ps" by auto
    then show ?thesis
    proof
      assume "piece = c # p"
      moreover have "prefix p cs" using hd_py_split_prefix[of sep cs] ps by simp
      ultimately show ?thesis by (simp add: prefix_imp_sublist)
    next
      assume "piece \<in> set ps"
      then have "sublist piece cs" using 2(2) False ps by auto
      then show ?thesis by (simp add: sublist_Cons_right)
    qed
  qed
qed

lemma hd_py_split_char: "hd (py_split [c] s) = takeWhile (\<lambda>x. x \<noteq> c) s"
proof (induction "[c]" s rule: py_split.induct)
  case 1
  show ?case by simp
next
  case (2 x xs)
  then show ?case
    by (cases "py_split [c] xs") (auto simp: py_split_not_Nil)
qed

lemma get_mol_string_name_first_line:
  "get_mol_string_name mol_string = Inr (py_strip (first_line mol_string))"
proof -
  obtain p ps where ps: "py_split ''\<newline>'' mol_string = p # ps"
    using py_split_not_Nil by (cases "py_split ''\<newline>'' mol_string") auto
  have "p = first_line mol_string"
    using hd_py_split_char[of "CHR ''\<newline>''" mol_string] ps by (simp add: first_line_def)
  with ps show ?thesis by (simp add: get_mol_string_name_def)
qed

lemma make_hit_name:
  "make_hit g mol_string = Inr h \<Longrightarrow> name h = take 254 (py_strip (first_line mol_string))"
  by (auto simp: make_hit_def get_mol_string_name_first_line split: sum.splits if_splits)

lemma property_pair_not_Nil: "property_pair element \<noteq> []"
  by (simp add: property_pair_def py_split_not_Nil)

lemma scan_elements_absent:
  "\<forall>element \<in> set elements. block_key element \<noteq> prop \<Longrightarrow> scan_elements prop cast_to elements = Inr None"
  by (induction elements) (auto simp: block_key_def property_pair_not_Nil split: list.splits)

lemma scan_elements_find:
  "scan_elements prop cast_to elements =
     (case find (\<lambda>element. block_key element = prop) elements of
        None \<Rightarrow> Inr None
      | Some element \<Rightarrow>
          (case property_pair element of
             key # val # _ \<Rightarrow>
               (case cast_to of
                  None \<Rightarrow> Inr (Some (PyStr val))
                | Some cast \<Rightarrow> (case cast val of Inl e \<Rightarrow> Inl e | Inr v \<Rightarrow> Inr (Some v)))
           | _ \<Rightarrow> Inl IndexError))"
  by (induction elements)
     (auto simp: block_key_def property_pair_not_Nil split: list.splits option.splits sum.splits)

lemma scan_elements_cast:
  "scan_elements prop None elements = Inr (Some (PyStr val)) \<Longrightarrow>
   scan_elements prop (Some cast) elements = (case cast val of Inl e \<Rightarrow> Inl e | Inr v \<Rightarrow> Inr (Some v))"
  by (induction elements) (auto split: list.splits if_splits)

lemma scan_elements_value:
  "scan_elements prop None elements = Inr (Some v) \<Longrightarrow>
   \<exists>element \<in> set elements. \<exists>piece \<in> set (py_split (''>\<newline>'') (py_replace ''$$$$'' [] element)).
      v = PyStr (py_strip piece)"
proof (induction elements)
  case Nil
  then show ?case by simp
next
  case (Cons element elements)
  show ?case
  proof (cases "block_key element = prop")
    case True
    with Cons.prems obtain key val rest where pp: "property_pair element = key # val # rest"
      and v: "v = PyStr val"
      by (auto simp: block_key_def split: list.splits if_splits)
    from pp have "val \<in> set (property_pair element)" by simp
    then obtain piece where "piece \<in> set (py_split (''>\<newline>'') (py_replace ''$$$$'' [] element))"
      and "val = py_strip piece"
      by (auto simp: property_pair_def)
    with v show ?thesis by auto
  next
    case False
    with Cons.prems have "scan_elements prop None elements = Inr (Some v)"
      by (auto simp: block_key_def split: list.splits if_splits)
    with Cons.IH show ?thesis by auto
  qed
qed

lemma py_strip_idem: "py_strip (py_strip s) = py_strip s"
proof (cases "py_strip s = []")
  case True
  then show ?thesis by (simp add: py_strip_Nil)
next
  case False
  define d where "d = dropWhile py_isspace s"
  define r where "r = dropWhile py_isspace (rev d)"
  have s: "py_strip s = rev r" by (simp add: py_strip_def d_def r_def)
  have rne: "r \<noteq> []" using False s by simp
  have dne: "d \<noteq> []"
  proof
    assume "d = []"
    then have "r = []" unfolding r_def by simp
    with rne show False by simp
  qed
  have "suffix r (rev d)" unfolding r_def by (rule suffix_dropWhile)
  then have pre: "prefix (rev r) d" by (simp add: suffix_to_prefix)
  have "hd (rev r) = hd d" using pre rne
    by (metis hd_append2 prefix_def rev_is_Nil_conv)
  moreover have "\<not> py_isspace (hd d)" using dne unfolding d_def by (rule hd_dropWhile)
  ultimately have front: "dropWhile py_isspace (rev r) = rev r"
    using rne by (cases "rev r") auto
  have "\<not> py_isspace (hd r)" using rne unfolding r_def by (rule hd_dropWhile)
  then have rear: "dropWhile py_isspace r = r" using rne by (cases r) auto
  have "py_strip (rev r) = rev r"
    unfolding py_strip_def front rev_rev_ident rear ..
  then show ?thesis using s by simp
qed

lemma get_mol_string_prop_no_dollars:
  assumes "get_mol_string_prop prop mol_string None = Inr (Some (PyStr val))"
  shows "\<not> sublist ''$$$$'' val \<and> py_strip val = val"
proof -
  from assms obtain element piece where
    piece: "piece \<in> set (py_split (''>\<newline>'') (py_replace ''$$$$'' [] element))"
    and val: "val = py_strip piece"
    using scan_elements_value[of "prop" "py_split ''> <'' mol_string" "PyStr val"]
    by (auto simp: get_mol_string_prop_def)
  have "sublist val piece" using val sublist_py_strip by simp
  moreover have "sublist piece (py_replace ''$$$$'' [] element)"
    using piece by (rule sublist_py_split)
  ultimately have "sublist val (py_replace ''$$$$'' [] element)"
    using sublist_order.order.trans by blast
  then have "\<not> sublist ''$$$$'' val"
    using no_dollars_after_replace[of element] sublist_order.order.trans by blast
  then show ?thesis using val py_strip_idem by simp
qed

lemma collect_scores_other:
  "collect_scores names mol_string scores = Inr result \<Longrightarrow> n \<notin> set names \<Longrightarrow>
   map_of result n = map_of scores n"
  by (induction names arbitrary: scores) (auto simp: update_conv' split: sum.splits)

lemma collect_scores_lookup:
  "collect_scores names mol_string scores = Inr result \<Longrightarrow> n \<in> set names \<Longrightarrow>
   \<exists>v. get_mol_string_prop (py_upper n) mol_string (Some py_float) = Inr v \<and> map_of result n = Some v"
proof (induction names arbitrary: scores)
  case Nil
  then show ?case by simp
next
  case (Cons c cs)
  from Cons.prems(1) obtain v0 where
    v0: "get_mol_string_prop (py_upper c) mol_string (Some py_float) = Inr v0"
    and rest: "collect_scores cs mol_string (AList.update c v0 scores) = Inr result"
    by (auto split: sum.splits)
  show ?case
  proof (cases "n \<in> set cs")
    case True
    then show ?thesis using Cons.IH[OF rest] by simp
  next
    case False
    with Cons.prems(2) have "n = c" by simp
    moreover have "map_of result c = Some v0"
      using collect_scores_other[OF rest, of c] False \<open>n = c\<close> by (simp add: update_conv')
    ultimately show ?thesis using v0 by simp
  qed
qed

lemma collect_scores_keys:
  "collect_scores names mol_string scores = Inr result \<Longrightarrow>
   fst ` set result = fst ` set scores \<union> set names"
  by (induction names arbitrary: scores) (auto simp: dom_update split: sum.splits)

lemma collect_scores_distinct:
  "collect_scores names mol_string scores = Inr result \<Longrightarrow> distinct (map fst scores) \<Longrightarrow>
   distinct (map fst result)"
  by (induction names arbitrary: scores) (auto simp: distinct_update split: sum.splits)

lemma py_float_value: "py_float s = Inr v \<Longrightarrow> \<exists>lit. v = PyFloat lit"
  by (auto simp: py_float_def Let_def split: if_splits)

lemma get_mol_string_prop_float:
  "get_mol_string_prop prop mol_string (Some py_float) = Inr (Some v) \<Longrightarrow> \<exists>lit. v = PyFloat lit"
  unfolding get_mol_string_prop_def scan_elements_find
  by (auto split: option.splits list.splits sum.splits dest: py_float_value)

lemma save_hits_shift:
  "save_hits accepts g records table =
     (fst (save_hits accepts g records []), table @ snd (save_hits accepts g records []))"
proof (induction records arbitrary: table)
  case Nil
  show ?case by simp
next
  case (Cons r rs)
  show ?case
  proof (cases "make_hit g r")
    case (Inl e)
    then show ?thesis by simp
  next
    case (Inr h)
    show ?thesis
    proof (cases "accepts h")
      case True
      have "save_hits accepts g rs (table @ [h]) =
          (fst (save_hits accepts g rs []), (table @ [h]) @ snd (save_hits accepts g rs []))"
        by (rule Cons.IH)
      moreover have "save_hits accepts g rs ([] @ [h]) =
          (fst (save_hits accepts g rs []), ([] @ [h]) @ snd (save_hits accepts g rs []))"
        by (rule Cons.IH)
      ultimately show ?thesis using Inr True by simp
    next
      case False
      with Inr show ?thesis by simp
    qed
  qed
qed

lemma add_hits_shift:
  "add_hits accepts g data table =
     (fst (add_hits accepts g data []), table @ snd (add_hits accepts g data []))"
  unfolding add_hits_def by (rule save_hits_shift)

lemma save_hits_rows:
  "save_hits accepts g records table = (r, table') \<Longrightarrow>
   \<exists>rows. table' = table @ rows \<and>
     (\<forall>h \<in> set rows. \<exists>m \<in> set records. make_hit g m = Inr h \<and> accepts h)"
proof (induction records arbitrary: table)
  case Nil
  then show ?case by simp
next
  case (Cons m ms)
  show ?case
  proof (cases "make_hit g m")
    case (Inl e)
    with Cons.prems show ?thesis by simp
  next
    case (Inr h)
    show ?thesis
    proof (cases "accepts h")
      case True
      with Inr Cons.prems have "save_hits accepts g ms (table @ [h]) = (r, table')" by simp
      from Cons.IH[OF this] obtain rows where "table' = (table @ [h]) @ rows"
        and "\<forall>h \<in> set rows. \<exists>m \<in> set ms. make_hit g m = Inr h \<and> accepts h" by blast
      then have "table' = table @ (h # rows) \<and>
          (\<forall>x \<in> set (h # rows). \<exists>m' \<in> set (m # ms). make_hit g m' = Inr x \<and> accepts x)"
        using Inr True by auto
      then show ?thesis by blast
    next
      case False
      with Inr Cons.prems show ?thesis by simp
    qed
  qed
qed

lemma save_hits_failing_record:
  "m \<in> set records \<Longrightarrow> make_hit g m = Inl e \<Longrightarrow> fst (save_hits accepts g records table) \<noteq> None"
  by (induction records arbitrary: table) (auto split: sum.splits)

section \<open>The record splitter\<close>

text \<open>
  C8. For every file text, the records that \<open>add_hits\<close> works on are exactly the pieces
  between the occurrences of the delimiter that hold a character other than whitespace, each
  with the delimiter appended again; empty and blank pieces are dropped. The pieces are the
  delimiter-separated fragments of the text: joined by the delimiter they give the text back,
  and none of them holds a delimiter. A delimiter at the end of the text adds no record.
\<close>

theorem c8_record_splitting:
  "mol_strings data =
     map (\<lambda>m. m @ delimiter)
       (filter (\<lambda>m. \<exists>c \<in> set m. \<not> py_isspace c) (py_split delimiter data))
   \<and> py_join delimiter (py_split delimiter data) = data
   \<and> (\<forall>m \<in> set (py_split delimiter data). \<not> sublist delimiter m)
   \<and> mol_strings (data @ delimiter) = mol_strings data"
proof -
  have "delimiter \<noteq> []" by (simp add: delimiter_def)
  then have "\<forall>m \<in> set (py_split delimiter data). \<not> sublist delimiter m"
    using py_split_no_sep by blast
  then show ?thesis
    using mol_strings_spec py_join_py_split mol_strings_trailing_delimiter by blast
qed

theorem c8_record_splitting_witness:
  "''A\<newline>'' \<in> set (py_split delimiter ''A\<newline>$$$$\<newline> \<newline>$$$$\<newline>B\<newline>$$$$\<newline>'')
   \<and> \<not> sublist delimiter ''A\<newline>''
   \<and> mol_strings ''A\<newline>$$$$\<newline> \<newline>$$$$\<newline>B\<newline>$$$$\<newline>''
       = [''A\<newline>$$$$\<newline>'', ''B\<newline>$$$$\<newline>'']"
proof -
  have m: "''A\<newline>'' \<in> set (py_split delimiter ''A\<newline>$$$$\<newline> \<newline>$$$$\<newline>B\<newline>$$$$\<newline>'')"
    by code_simp
  have pieces: "py_split delimiter ''A\<newline>$$$$\<newline> \<newline>$$$$\<newline>B\<newline>$$$$\<newline>''
      = [''A\<newline>'', '' \<newline>'', ''B\<newline>'', []]"
    by code_simp
  have kept: "filter (\<lambda>m. \<exists>c \<in> set m. \<not> py_isspace c) [''A\<newline>'', '' \<newline>'', ''B\<newline>'', []]
      = [''A\<newline>'', ''B\<newline>'']"
    by (simp add: py_isspace_def)
  from c8_record_splitting[of "''A\<newline>$$$$\<newline> \<newline>$$$$\<newline>B\<newline>$$$$\<newline>''"] m pieces kept
  show ?thesis by (simp add: delimiter_def)
qed

section \<open>The name of a hit\<close>

text \<open>
  C9, as amended. For every record, the extracted name is the first line of the record
  trimmed of surrounding whitespace, and extraction never raises. The name given to the hit
  built from the record is that trimmed string cut to its first 254 characters: it has at
  most 254 characters, it is the whole trimmed line when that has at most 254 characters,
  and it has exactly 254 characters when the trimmed line has more.
\<close>

theorem c9_hit_name:
  "get_mol_string_name mol_string = Inr (py_strip (first_line mol_string))
   \<and> (make_hit g mol_string = Inr h \<longrightarrow>
        name h = take 254 (py_strip (first_line mol_string))
        \<and> length (name h) \<le> 254
        \<and> (length (py_strip (first_line mol_string)) \<le> 254 \<longrightarrow>
             name h = py_strip (first_line mol_string))
        \<and> (254 < length (py_strip (first_line mol_string)) \<longrightarrow> length (name h) = 254))"
  using get_mol_string_name_first_line[of mol_string] make_hit_name[of g mol_string h]
  by auto

theorem c9_hit_name_witness:
  "make_hit \<lparr>complex_set = [''4agn''], status = PENDING\<rparr>
     (replicate 260 (CHR ''A'') @ ''\<newline>> <Score>\<newline>1.5\<newline>\<newline>$$$$\<newline>'')
     = Inr \<lparr>name = replicate 254 (CHR ''A''), score = Some (PyFloat ''1.5''),
            file_string = replicate 260 (CHR ''A'') @ ''\<newline>> <Score>\<newline>1.5\<newline>\<newline>$$$$\<newline>'',
            file_type = ''sdf'', ensemble_scores = []\<rparr>
   \<and> 254 < length (py_strip (first_line
         (replicate 260 (CHR ''A'') @ ''\<newline>> <Score>\<newline>1.5\<newline>\<newline>$$$$\<newline>'')))
   \<and> length (replicate 254 (CHR ''A'')) = 254"
proof -
  let ?r = "replicate 260 (CHR ''A'') @ ''\<newline>> <Score>\<newline>1.5\<newline>\<newline>$$$$\<newline>''"
  let ?h = "\<lparr>name = replicate 254 (CHR ''A''), score = Some (PyFloat ''1.5''),
            file_string = ?r, file_type = ''sdf'', ensemble_scores = []\<rparr>"
  have built: "make_hit \<lparr>complex_set = [''4agn''], status = PENDING\<rparr> ?r = Inr ?h"
    by code_simp
  have long: "254 < length (py_strip (first_line ?r))"
    by code_simp
  from c9_hit_name[of ?r "\<lparr>complex_set = [''4agn''], status = PENDING\<rparr>" ?h] built long
  show ?thesis by simp
qed

text \<open>
  The claim as written fails for a first line that is long only by its surrounding
  whitespace: a first line of 300 blanks followed by \<open>HIT\<close> has 303 characters, and the
  hit is named \<open>HIT\<close>.
\<close>

theorem c9_hit_name_counterexample:
  "254 < length (first_line
      (replicate 300 (CHR '' '') @ ''HIT\<newline>> <Score>\<newline>1.5\<newline>\<newline>$$$$\<newline>''))
   \<and> make_hit \<lparr>complex_set = [''4agn''], status = PENDING\<rparr>
      (replicate 300 (CHR '' '') @ ''HIT\<newline>> <Score>\<newline>1.5\<newline>\<newline>$$$$\<newline>'')
     = Inr \<lparr>name = ''HIT'', score = Some (PyFloat ''1.5''),
            file_string = replicate 300 (CHR '' '') @ ''HIT\<newline>> <Score>\<newline>1.5\<newline>\<newline>$$$$\<newline>'',
            file_type = ''sdf'', ensemble_scores = []\<rparr>
   \<and> ''HIT'' \<noteq> take 254 (first_line
      (replicate 300 (CHR '' '') @ ''HIT\<newline>> <Score>\<newline>1.5\<newline>\<newline>$$$$\<newline>''))"
  by code_simp

section \<open>The value of a property\<close>

lemma get_mol_string_prop_find:
  "get_mol_string_prop prop mol_string None =
     (case find (\<lambda>element. block_key element = prop) (py_split ''> <'' mol_string) of
        None \<Rightarrow> Inr None
      | Some element \<Rightarrow>
          (case py_split ''>\<newline>'' (py_replace ''$$$$'' [] element) of
             key # val # _ \<Rightarrow> Inr (Some (PyStr (py_strip val)))
           | _ \<Rightarrow> Inl IndexError))"
  unfolding get_mol_string_prop_def scan_elements_find property_pair_def
  by (auto split: option.splits list.splits)

text \<open>
  C10, as amended. For every record and key, extraction without a caster takes the first
  of the pieces of the record between the markers \<open>> <\<close> whose key is the property; the key
  of a piece is its text before the first \<open>>\<close> that ends a line, read after every \<open>$$$$\<close> has
  been deleted from the piece and trimmed. No such piece: nothing is returned. Otherwise
  the value is the text between the first and the second \<open>>\<close> that ends a line in that piece
  (or the end of the piece), again after every \<open>$$$$\<close> has been deleted, and trimmed; a piece
  without a \<open>>\<close> that ends a line raises \<open>IndexError\<close>. A returned value never holds \<open>$$$$\<close> and
  has no surrounding whitespace.
\<close>

theorem c10_property_value:
  "get_mol_string_prop prop mol_string None =
     (case find (\<lambda>element. block_key element = prop) (py_split ''> <'' mol_string) of
        None \<Rightarrow> Inr None
      | Some element \<Rightarrow>
          (case py_split ''>\<newline>'' (py_replace ''$$$$'' [] element) of
             key # val # _ \<Rightarrow> Inr (Some (PyStr (py_strip val)))
           | _ \<Rightarrow> Inl IndexError))
   \<and> (get_mol_string_prop prop mol_string None = Inr (Some (PyStr v)) \<longrightarrow>
        \<not> sublist ''$$$$'' v \<and> py_strip v = v)"
  using get_mol_string_prop_find[of "prop" mol_string]
    get_mol_string_prop_no_dollars[of "prop" mol_string v]
  by blast

theorem c10_property_value_witness:
  "get_mol_string_prop ''Score'' ''HIT_A\<newline>> <Score>\<newline> 12$$$$.5\<newline>\<newline>$$$$\<newline>'' None
     = Inr (Some (PyStr ''12.5''))
   \<and> \<not> sublist ''$$$$'' ''12.5'' \<and> py_strip ''12.5'' = ''12.5''"
proof -
  have got: "get_mol_string_prop ''Score'' ''HIT_A\<newline>> <Score>\<newline> 12$$$$.5\<newline>\<newline>$$$$\<newline>'' None
     = Inr (Some (PyStr ''12.5''))"
    by code_simp
  from c10_property_value[of "''Score''" "''HIT_A\<newline>> <Score>\<newline> 12$$$$.5\<newline>\<newline>$$$$\<newline>''" "''12.5''"] got
  show ?thesis by blast
qed

text \<open>
  The claim as written fails for a value that holds a \<open>>\<close> at the end of a line: in the
  record below the text between the marker line of \<open>K\<close> and the end of the record is two
  lines, and only the first is returned, without its \<open>>\<close>.
\<close>

theorem c10_property_value_counterexample:
  "get_mol_string_prop ''K'' (''> <K>\<newline>'' @ ''a>\<newline>b\<newline>'') None = Inr (Some (PyStr ''a''))
   \<and> py_strip (py_replace ''$$$$'' [] ''a>\<newline>b\<newline>'') = ''a>\<newline>b''
   \<and> \<not> sublist ''> <'' ''a>\<newline>b\<newline>''"
  by code_simp

section \<open>The scores of the ensemble members\<close>

lemma make_hit_scores:
  assumes "make_hit g mol_string = Inr h"
  shows "if 1 < length (complex_set g)
         then collect_scores (complex_set g) mol_string [] = Inr (ensemble_scores h)
         else ensemble_scores h = []"
  using assms by (auto simp: make_hit_def split: sum.splits if_splits)

text \<open>
  C7, as amended. For every hit built from a record: if the ensemble of the job has at most
  one member, the mapping of member scores is empty; if it has more than one, the mapping has
  exactly the names of the members as keys, each once, and the entry of a member is what
  extraction with the float caster returns for the key that is the name of the member in
  upper case: a float when the record has such a property, nothing when it has none.
\<close>

theorem c7_ensemble_scores:
  "make_hit g mol_string = Inr h \<Longrightarrow>
     (length (complex_set g) \<le> 1 \<longrightarrow> ensemble_scores h = [])
   \<and> (1 < length (complex_set g) \<longrightarrow>
        fst ` set (ensemble_scores h) = set (complex_set g)
      \<and> distinct (map fst (ensemble_scores h))
      \<and> (\<forall>cmplx \<in> set (complex_set g).
            \<exists>v. map_of (ensemble_scores h) cmplx = Some v
              \<and> get_mol_string_prop (py_upper cmplx) mol_string (Some py_float) = Inr v
              \<and> (v = None \<or> (\<exists>lit. v = Some (PyFloat lit)))))"
proof (intro conjI impI)
  assume "make_hit g mol_string = Inr h" "length (complex_set g) \<le> 1"
  then show "ensemble_scores h = []" using make_hit_scores[of g mol_string h] by simp
next
  assume "make_hit g mol_string = Inr h" "1 < length (complex_set g)"
  then have c: "collect_scores (complex_set g) mol_string [] = Inr (ensemble_scores h)"
    using make_hit_scores[of g mol_string h] by simp
  show "fst ` set (ensemble_scores h) = set (complex_set g)"
    using collect_scores_keys[OF c] by simp
  show "distinct (map fst (ensemble_scores h))"
    using collect_scores_distinct[OF c] by simp
  show "\<forall>cmplx \<in> set (complex_set g).
            \<exists>v. map_of (ensemble_scores h) cmplx = Some v
              \<and> get_mol_string_prop (py_upper cmplx) mol_string (Some py_float) = Inr v
              \<and> (v = None \<or> (\<exists>lit. v = Some (PyFloat lit)))"
  proof
    fix cmplx assume "cmplx \<in> set (complex_set g)"
    from collect_scores_lookup[OF c this] obtain v where
      v: "get_mol_string_prop (py_upper cmplx) mol_string (Some py_float) = Inr v"
      and m: "map_of (ensemble_scores h) cmplx = Some v" by blast
    have "v = None \<or> (\<exists>lit. v = Some (PyFloat lit))"
    proof (cases v)
      case None
      then show ?thesis by simp
    next
      case (Some x)
      with v get_mol_string_prop_float[of "py_upper cmplx" mol_string x] show ?thesis by simp
    qed
    with v m show "\<exists>v. map_of (ensemble_scores h) cmplx = Some v
              \<and> get_mol_string_prop (py_upper cmplx) mol_string (Some py_float) = Inr v
              \<and> (v = None \<or> (\<exists>lit. v = Some (PyFloat lit)))" by blast
  qed
qed

theorem c7_ensemble_scores_witness:
  "make_hit \<lparr>complex_set = [''4agn''], status = PENDING\<rparr>
      ''HIT_A\<newline>> <Score>\<newline>12.5\<newline>\<newline>$$$$\<newline>''
     = Inr \<lparr>name = ''HIT_A'', score = Some (PyFloat ''12.5''),
            file_string = ''HIT_A\<newline>> <Score>\<newline>12.5\<newline>\<newline>$$$$\<newline>'',
            file_type = ''sdf'', ensemble_scores = []\<rparr>
   \<and> length [''4agn''] \<le> 1
   \<and> make_hit \<lparr>complex_set = [''4agn'', ''4agm''], status = PENDING\<rparr>
      ''HIT_A\<newline>> <Score>\<newline>12.5\<newline>\<newline>> <4AGN>\<newline>12.5\<newline>\<newline>> <4AGM>\<newline>14\<newline>\<newline>$$$$\<newline>''
     = Inr \<lparr>name = ''HIT_A'', score = Some (PyFloat ''12.5''),
            file_string = ''HIT_A\<newline>> <Score>\<newline>12.5\<newline>\<newline>> <4AGN>\<newline>12.5\<newline>\<newline>> <4AGM>\<newline>14\<newline>\<newline>$$$$\<newline>'',
            file_type = ''sdf'',
            ensemble_scores = [(''4agn'', Some (PyFloat ''12.5'')), (''4agm'', Some (PyFloat ''14''))]\<rparr>
   \<and> 1 < length [''4agn'', ''4agm'']
   \<and> ''4agm'' \<in> set [''4agn'', ''4agm'']
   \<and> get_mol_string_prop (py_upper ''4agm'')
        ''HIT_A\<newline>> <Score>\<newline>12.5\<newline>\<newline>> <4AGN>\<newline>12.5\<newline>\<newline>> <4AGM>\<newline>14\<newline>\<newline>$$$$\<newline>''
        (Some py_float) = Inr (Some (PyFloat ''14''))"
proof -
  let ?g1 = "\<lparr>complex_set = [''4agn''], status = PENDING\<rparr>"
  let ?r1 = "''HIT_A\<newline>> <Score>\<newline>12.5\<newline>\<newline>$$$$\<newline>''"
  let ?h1 = "\<lparr>name = ''HIT_A'', score = Some (PyFloat ''12.5''), file_string = ?r1,
            file_type = ''sdf'', ensemble_scores = []\<rparr>"
  let ?g2 = "\<lparr>complex_set = [''4agn'', ''4agm''], status = PENDING\<rparr>"
  let ?r2 = "''HIT_A\<newline>> <Score>\<newline>12.5\<newline>\<newline>> <4AGN>\<newline>12.5\<newline>\<newline>> <4AGM>\<newline>14\<newline>\<newline>$$$$\<newline>''"
  let ?h2 = "\<lparr>name = ''HIT_A'', score = Some (PyFloat ''12.5''), file_string = ?r2,
            file_type = ''sdf'',
            ensemble_scores = [(''4agn'', Some (PyFloat ''12.5'')), (''4agm'', Some (PyFloat ''14''))]\<rparr>"
  have one: "make_hit ?g1 ?r1 = Inr ?h1" by code_simp
  have two: "make_hit ?g2 ?r2 = Inr ?h2" by code_simp
  from c7_ensemble_scores[OF one] have "ensemble_scores ?h1 = []" by simp
  moreover from c7_ensemble_scores[OF two]
  have "\<exists>v. map_of (ensemble_scores ?h2) ''4agm'' = Some v
      \<and> get_mol_string_prop (py_upper ''4agm'') ?r2 (Some py_float) = Inr v"
    by simp
  then have "get_mol_string_prop (py_upper ''4agm'') ?r2 (Some py_float) = Inr (Some (PyFloat ''14''))"
    by simp
  ultimately show ?thesis using one two by simp
qed

text \<open>
  The claim as written fails for member names that are not in upper case: the record below
  has a property for each of the members \<open>a\<close> and \<open>b\<close> under the name of the member, and the
  mapping holds no float for either.
\<close>

theorem c7_ensemble_scores_counterexample:
  "make_hit \<lparr>complex_set = [''a'', ''b''], status = PENDING\<rparr>
      ''HIT_A\<newline>> <Score>\<newline>12.5\<newline>\<newline>> <a>\<newline>2.5\<newline>\<newline>> <b>\<newline>3.5\<newline>\<newline>$$$$\<newline>''
     = Inr \<lparr>name = ''HIT_A'', score = Some (PyFloat ''12.5''),
            file_string = ''HIT_A\<newline>> <Score>\<newline>12.5\<newline>\<newline>> <a>\<newline>2.5\<newline>\<newline>> <b>\<newline>3.5\<newline>\<newline>$$$$\<newline>'',
            file_type = ''sdf'', ensemble_scores = [(''a'', None), (''b'', None)]\<rparr>
   \<and> get_mol_string_prop ''a''
        ''HIT_A\<newline>> <Score>\<newline>12.5\<newline>\<newline>> <a>\<newline>2.5\<newline>\<newline>> <b>\<newline>3.5\<newline>\<newline>$$$$\<newline>''
        (Some py_float) = Inr (Some (PyFloat ''2.5''))
   \<and> get_mol_string_prop ''b''
        ''HIT_A\<newline>> <Score>\<newline>12.5\<newline>\<newline>> <a>\<newline>2.5\<newline>\<newline>> <b>\<newline>3.5\<newline>\<newline>$$$$\<newline>''
        (Some py_float) = Inr (Some (PyFloat ''3.5''))"
  by code_simp

section \<open>Facts about a scan\<close>

lemma unseen_files_fresh: "fst ` set (unseen_files S files) \<inter> S = {}"
  by (induction S files rule: unseen_files.induct) auto

lemma unseen_files_distinct: "distinct (map fst (unseen_files S files))"
proof (induction S files rule: unseen_files.induct)
  case (1 S)
  show ?case by simp
next
  case (2 S hit_file data others)
  show ?case
  proof (cases "hit_file \<in> S")
    case True
    with 2 show ?thesis by simp
  next
    case False
    have "hit_file \<notin> fst ` set (unseen_files (insert hit_file S) others)"
      using unseen_files_fresh[of "insert hit_file S" others] by auto
    with False 2 show ?thesis by simp
  qed
qed

lemma ingested_append: "ingested (xs @ ys) = ingested xs @ ingested ys"
  by (induction xs rule: ingested.induct) auto

lemma ingested_AddHits: "ingested (map AddHits ps) = ps"
  by (induction ps) auto

lemma saved_append: "saved (xs @ ys) = saved xs @ saved ys"
  by (induction xs rule: saved.induct) auto

lemma saved_AddHits: "saved (map AddHits ps) = []"
  by (induction ps) auto

text \<open>The three ways one turn of the loop over a listing goes.\<close>

lemma process_files_seen_file:
  "hit_file \<in> seen st \<Longrightarrow>
   process_files accepts g ((hit_file, data) # others) st = process_files accepts g others st"
  by simp

lemma process_files_raise:
  "hit_file \<notin> seen st \<Longrightarrow> fst (add_hits accepts g data []) = Some e \<Longrightarrow>
   process_files accepts g ((hit_file, data) # others) st =
     (Some e, st\<lparr>db := db st @ snd (add_hits accepts g data []),
                  trace := trace st @ [AddHits hit_file]\<rparr>)"
  using add_hits_shift[of accepts g data "db st"] by simp

lemma process_files_next:
  "hit_file \<notin> seen st \<Longrightarrow> fst (add_hits accepts g data []) = None \<Longrightarrow>
   process_files accepts g ((hit_file, data) # others) st =
     process_files accepts g others
       (st\<lparr>seen := insert hit_file (seen st), db := db st @ snd (add_hits accepts g data []),
           trace := trace st @ [AddHits hit_file]\<rparr>)"
  using add_hits_shift[of accepts g data "db st"] by simp

lemma process_files_trace:
  "process_files accepts g files st = (r, st') \<Longrightarrow>
   \<exists>ps. trace st' = trace st @ map AddHits ps
      \<and> prefix ps (map fst (unseen_files (seen st) files))
      \<and> (r = None \<longrightarrow> ps = map fst (unseen_files (seen st) files))"
proof (induction files arbitrary: st)
  case Nil
  then show ?case by simp
next
  case (Cons entry others)
  obtain hit_file data where entry: "entry = (hit_file, data)" by (cases entry)
  show ?case
  proof (cases "hit_file \<in> seen st")
    case True
    with Cons.prems entry have "process_files accepts g others st = (r, st')" by simp
    from Cons.IH[OF this] True entry show ?thesis by simp
  next
    case False
    show ?thesis
    proof (cases "fst (add_hits accepts g data [])")
      case (Some e)
      from Cons.prems entry process_files_raise[OF False Some]
      have "trace st' = trace st @ map AddHits [hit_file]" and "r = Some e" by auto
      moreover have "prefix [hit_file] (map fst (unseen_files (seen st) (entry # others)))"
        using False entry by simp
      ultimately have "trace st' = trace st @ map AddHits [hit_file]
          \<and> prefix [hit_file] (map fst (unseen_files (seen st) (entry # others)))
          \<and> (r = None \<longrightarrow> [hit_file] = map fst (unseen_files (seen st) (entry # others)))"
        by simp
      then show ?thesis by (rule exI)
    next
      case None
      let ?st1 = "st\<lparr>seen := insert hit_file (seen st),
                      db := db st @ snd (add_hits accepts g data []),
                      trace := trace st @ [AddHits hit_file]\<rparr>"
      from Cons.prems entry process_files_next[OF False None]
      have "process_files accepts g others ?st1 = (r, st')" by simp
      from Cons.IH[OF this] obtain ps where
        t: "trace st' = trace ?st1 @ map AddHits ps"
        and p: "prefix ps (map fst (unseen_files (seen ?st1) others))"
        and f: "r = None \<longrightarrow> ps = map fst (unseen_files (seen ?st1) others)"
        by blast
      have "trace st' = trace st @ map AddHits (hit_file # ps)" using t by simp
      moreover have "prefix (hit_file # ps) (map fst (unseen_files (seen st) (entry # others)))"
        using p False entry by simp
      moreover have "r = None \<longrightarrow> hit_file # ps = map fst (unseen_files (seen st) (entry # others))"
        using f False entry by simp
      ultimately have "trace st' = trace st @ map AddHits (hit_file # ps)
          \<and> prefix (hit_file # ps) (map fst (unseen_files (seen st) (entry # others)))
          \<and> (r = None \<longrightarrow> hit_file # ps = map fst (unseen_files (seen st) (entry # others)))"
        by (intro conjI)
      then show ?thesis by (rule exI)
    qed
  qed
qed

lemma process_files_seen:
  "process_files accepts g files st = (r, st') \<Longrightarrow>
   seen st \<subseteq> seen st'
   \<and> (r = None \<longrightarrow> seen st' = seen st \<union> fst ` set (unseen_files (seen st) files))"
proof (induction files arbitrary: st)
  case Nil
  then show ?case by simp
next
  case (Cons entry others)
  obtain hit_file data where entry: "entry = (hit_file, data)" by (cases entry)
  show ?case
  proof (cases "hit_file \<in> seen st")
    case True
    with Cons.prems entry have "process_files accepts g others st = (r, st')" by simp
    from Cons.IH[OF this] True entry show ?thesis by simp
  next
    case False
    show ?thesis
    proof (cases "fst (add_hits accepts g data [])")
      case (Some e)
      from Cons.prems entry process_files_raise[OF False Some]
      have "seen st' = seen st" and "r = Some e" by auto
      then show ?thesis by simp
    next
      case None
      define st1 where "st1 = st\<lparr>seen := insert hit_file (seen st),
                      db := db st @ snd (add_hits accepts g data []),
                      trace := trace st @ [AddHits hit_file]\<rparr>"
      have seen1: "seen st1 = insert hit_file (seen st)" by (simp add: st1_def)
      from Cons.prems entry process_files_next[OF False None]
      have "process_files accepts g others st1 = (r, st')" by (simp add: st1_def)
      note ih = Cons.IH[OF this]
      have sub: "seen st \<subseteq> seen st'"
        using ih[THEN conjunct1] seen1 by blast
      have "seen st' = seen st \<union> fst ` set (unseen_files (seen st) (entry # others))"
        if "r = None"
      proof -
        from that ih[THEN conjunct2] seen1
        have "seen st' = insert hit_file (seen st)
            \<union> fst ` set (unseen_files (insert hit_file (seen st)) others)"
          by simp
        moreover have "unseen_files (seen st) (entry # others)
            = (hit_file, data) # unseen_files (insert hit_file (seen st)) others"
          using False entry by simp
        ultimately show ?thesis by simp
      qed
      with sub show ?thesis by blast
    qed
  qed
qed

lemma process_files_db:
  "process_files accepts g files st = (None, st') \<Longrightarrow>
   db st' = db st @ concat (map (\<lambda>(p, d). snd (add_hits accepts g d [])) (unseen_files (seen st) files))
   \<and> (\<forall>(p, d) \<in> set (unseen_files (seen st) files). fst (add_hits accepts g d []) = None)"
proof (induction files arbitrary: st)
  case Nil
  then show ?case by simp
next
  case (Cons entry others)
  obtain hit_file data where entry: "entry = (hit_file, data)" by (cases entry)
  show ?case
  proof (cases "hit_file \<in> seen st")
    case True
    with Cons.prems entry have "process_files accepts g others st = (None, st')" by simp
    from Cons.IH[OF this] True entry show ?thesis by simp
  next
    case False
    show ?thesis
    proof (cases "fst (add_hits accepts g data [])")
      case (Some e)
      from Cons.prems entry process_files_raise[OF False Some]
      show ?thesis by simp
    next
      case None
      define st1 where "st1 = st\<lparr>seen := insert hit_file (seen st),
                      db := db st @ snd (add_hits accepts g data []),
                      trace := trace st @ [AddHits hit_file]\<rparr>"
      have seen1: "seen st1 = insert hit_file (seen st)" by (simp add: st1_def)
      have db1: "db st1 = db st @ snd (add_hits accepts g data [])" by (simp add: st1_def)
      from Cons.prems entry process_files_next[OF False None]
      have "process_files accepts g others st1 = (None, st')" by (simp add: st1_def)
      note ih = Cons.IH[OF this]
      have unfold: "unseen_files (seen st) (entry # others)
            = (hit_file, data) # unseen_files (seen st1) others"
        using False entry seen1 by simp
      have "db st' = db st @ concat (map (\<lambda>(p, d). snd (add_hits accepts g d []))
              (unseen_files (seen st) (entry # others)))"
        unfolding unfold using ih[THEN conjunct1] db1 by simp
      moreover have "\<forall>(p, d) \<in> set (unseen_files (seen st) (entry # others)).
              fst (add_hits accepts g d []) = None"
        unfolding unfold using ih[THEN conjunct2] None by simp
      ultimately show ?thesis by (rule conjI)
    qed
  qed
qed

section \<open>Facts about a pass and about the loop\<close>

lemma process_hits_cases:
  obtains r0 st0 where
    "process_files accepts g files (st\<lparr>trace := trace st @ [Scan]\<rparr>) = (r0, st0)"
    "process_hits accepts g files st = (r0, if r0 = None then st0 else st0\<lparr>db := db st\<rparr>)"
proof -
  obtain r0 st0 where pf: "process_files accepts g files (st\<lparr>trace := trace st @ [Scan]\<rparr>) = (r0, st0)"
    by (cases "process_files accepts g files (st\<lparr>trace := trace st @ [Scan]\<rparr>)") auto
  then have "process_hits accepts g files st = (r0, if r0 = None then st0 else st0\<lparr>db := db st\<rparr>)"
    by (cases r0) (simp_all add: process_hits_def)
  with pf show ?thesis by (rule that)
qed

lemma process_hits_trace:
  assumes "process_hits accepts g files st = (r, st')"
  shows "\<exists>ps. trace st' = trace st @ Scan # map AddHits ps
      \<and> prefix ps (map fst (unseen_files (seen st) files))
      \<and> (r = None \<longrightarrow> ps = map fst (unseen_files (seen st) files))"
proof -
  obtain r0 st0 where pf: "process_files accepts g files (st\<lparr>trace := trace st @ [Scan]\<rparr>) = (r0, st0)"
    and ph: "process_hits accepts g files st = (r0, if r0 = None then st0 else st0\<lparr>db := db st\<rparr>)"
    by (rule process_hits_cases)
  from ph assms have r: "r = r0" and t: "trace st' = trace st0" by (auto split: if_splits)
  from process_files_trace[OF pf] obtain ps where
    "trace st0 = (trace st @ [Scan]) @ map AddHits ps"
    "prefix ps (map fst (unseen_files (seen st) files))"
    "r0 = None \<longrightarrow> ps = map fst (unseen_files (seen st) files)"
    by auto
  then have "trace st' = trace st @ Scan # map AddHits ps
      \<and> prefix ps (map fst (unseen_files (seen st) files))
      \<and> (r = None \<longrightarrow> ps = map fst (unseen_files (seen st) files))"
    using r t by simp
  then show ?thesis by (rule exI)
qed

lemma process_hits_seen:
  assumes "process_hits accepts g files st = (r, st')"
  shows "seen st \<subseteq> seen st'
      \<and> (r = None \<longrightarrow> seen st' = seen st \<union> fst ` set (unseen_files (seen st) files))"
proof -
  obtain r0 st0 where pf: "process_files accepts g files (st\<lparr>trace := trace st @ [Scan]\<rparr>) = (r0, st0)"
    and ph: "process_hits accepts g files st = (r0, if r0 = None then st0 else st0\<lparr>db := db st\<rparr>)"
    by (rule process_hits_cases)
  from ph assms have r: "r = r0" and t: "seen st' = seen st0" by (auto split: if_splits)
  from process_files_seen[OF pf] show ?thesis using r t by simp
qed

lemma process_hits_db:
  assumes "process_hits accepts g files st = (r, st')"
  shows "(r \<noteq> None \<longrightarrow> db st' = db st)
      \<and> (r = None \<longrightarrow>
            db st' = db st @ concat (map (\<lambda>(p, d). snd (add_hits accepts g d [])) (unseen_files (seen st) files))
          \<and> (\<forall>(p, d) \<in> set (unseen_files (seen st) files). fst (add_hits accepts g d []) = None))"
proof -
  obtain r0 st0 where pf: "process_files accepts g files (st\<lparr>trace := trace st @ [Scan]\<rparr>) = (r0, st0)"
    and ph: "process_hits accepts g files st = (r0, if r0 = None then st0 else st0\<lparr>db := db st\<rparr>)"
    by (rule process_hits_cases)
  show ?thesis
  proof (cases r0)
    case None
    with ph assms have "r = None" "st' = st0" by auto
    with process_files_db[of accepts g files "st\<lparr>trace := trace st @ [Scan]\<rparr>" st0] pf None
    show ?thesis by simp
  next
    case (Some e)
    with ph assms have "r = Some e" "db st' = db st" by auto
    then show ?thesis by simp
  qed
qed

lemma loop_event_AddHits: "list_all loop_event (map AddHits ps)"
  by (induction ps) auto

lemma loop_event_saved: "list_all loop_event es \<Longrightarrow> saved es = []"
  by (induction es rule: saved.induct) auto


text \<open>One pass keeps the files of the calls of \<open>add_hits\<close> distinct, and after a pass that
  ends well the set of seen files is again the set of these files.\<close>

lemma process_hits_ingested:
  assumes "process_hits accepts g files st = (r, st')"
    and "seen st = set (ingested (trace st))" and "distinct (ingested (trace st))"
  shows "distinct (ingested (trace st'))
      \<and> (r = None \<longrightarrow> seen st' = set (ingested (trace st')))"
proof -
  from process_hits_trace[OF assms(1)] obtain ps where
    t: "trace st' = trace st @ Scan # map AddHits ps"
    and p: "prefix ps (map fst (unseen_files (seen st) files))"
    and f: "r = None \<longrightarrow> ps = map fst (unseen_files (seen st) files)"
    by blast
  have ing: "ingested (trace st') = ingested (trace st) @ ps"
    using t by (simp add: ingested_append ingested_AddHits)
  from p obtain qs where qs: "map fst (unseen_files (seen st) files) = ps @ qs"
    by (auto simp: prefix_def)
  have "distinct (ps @ qs)" using unseen_files_distinct[of "seen st" files] qs by simp
  then have dps: "distinct ps" by simp
  have "set ps \<subseteq> fst ` set (unseen_files (seen st) files)"
    using qs by (metis Un_iff set_append set_map subsetI)
  then have fresh: "set ps \<inter> seen st = {}"
    using unseen_files_fresh[of "seen st" files] by blast
  have d: "distinct (ingested (trace st'))"
    using ing dps fresh assms(2,3) by auto
  have "seen st' = set (ingested (trace st'))" if "r = None"
  proof -
    from that f have "ps = map fst (unseen_files (seen st) files)" by simp
    moreover from that process_hits_seen[OF assms(1)]
    have "seen st' = seen st \<union> fst ` set (unseen_files (seen st) files)" by simp
    ultimately show ?thesis using ing assms(2) by simp
  qed
  with d show ?thesis by blast
qed

lemma poll_loop_returns:
  "\<exists>c \<in> set turns. snd c \<noteq> None \<Longrightarrow> poll_loop accepts g turns st \<noteq> None"
proof (induction turns arbitrary: st)
  case Nil
  then show ?case by simp
next
  case (Cons turn turns)
  obtain files polled where turn: "turn = (files, polled)" by (cases turn)
  obtain r st1 where ph: "process_hits accepts g files st = (r, st1)"
    by (cases "process_hits accepts g files st") auto
  show ?case
  proof (cases r)
    case (Some e)
    with turn ph show ?thesis by simp
  next
    case None
    show ?thesis
    proof (cases polled)
      case (Some rc)
      with turn ph None show ?thesis by simp
    next
      case pn: None
      with Cons.prems turn have "\<exists>c \<in> set turns. snd c \<noteq> None" by simp
      from Cons.IH[OF this] turn ph None pn show ?thesis by simp
    qed
  qed
qed

text \<open>The events of the loop: turns of scans, calls of \<open>add_hits\<close>, sleeps and polls that
  find the process running, and at the end of a loop that does not raise, the poll that finds
  the return code.\<close>

lemma poll_loop_shape:
  assumes "poll_loop accepts g turns st = Some (res, st')"
    and "seen st = set (ingested (trace st))" and "distinct (ingested (trace st))"
  shows "\<exists>es. list_all loop_event es \<and> distinct (ingested (trace st @ es))
      \<and> (case res of
            Inl e \<Rightarrow> trace st' = trace st @ es
          | Inr rc \<Rightarrow> trace st' = trace st @ es @ [Poll (Some rc)]
                     \<and> seen st' = set (ingested (trace st @ es)))"
  using assms
proof (induction turns arbitrary: st)
  case Nil
  then show ?case by simp
next
  case (Cons turn turns)
  obtain files polled where turn: "turn = (files, polled)" by (cases turn)
  obtain r st1 where ph: "process_hits accepts g files st = (r, st1)"
    by (cases "process_hits accepts g files st") auto
  from process_hits_trace[OF ph] obtain ps where
    t1: "trace st1 = trace st @ Scan # map AddHits ps" by blast
  from process_hits_ingested[OF ph Cons.prems(2,3)] have
    d1: "distinct (ingested (trace st1))"
    and s1: "r = None \<longrightarrow> seen st1 = set (ingested (trace st1))" by blast+
  have le1: "list_all loop_event (Scan # map AddHits ps)"
    by (simp add: loop_event_AddHits)
  show ?case
  proof (cases r)
    case (Some e)
    with Cons.prems(1) turn ph have "res = Inl e" "st' = st1" by auto
    then have "list_all loop_event (Scan # map AddHits ps)
        \<and> distinct (ingested (trace st @ Scan # map AddHits ps))
        \<and> (case res of
              Inl e \<Rightarrow> trace st' = trace st @ Scan # map AddHits ps
            | Inr rc \<Rightarrow> trace st' = trace st @ (Scan # map AddHits ps) @ [Poll (Some rc)]
                       \<and> seen st' = set (ingested (trace st @ Scan # map AddHits ps)))"
      using le1 d1 t1 by simp
    then show ?thesis by (rule exI)
  next
    case None
    with s1 have seen1: "seen st1 = set (ingested (trace st1))" by simp
    show ?thesis
    proof (cases polled)
      case (Some rc)
      with Cons.prems(1) turn ph None have res: "res = Inr rc"
        and st': "st' = st1\<lparr>trace := trace st1 @ [Sleep, Poll (Some rc)]\<rparr>" by auto
      let ?es = "Scan # map AddHits ps @ [Sleep]"
      have tr: "trace st @ ?es = trace st1 @ [Sleep]" using t1 by simp
      have "list_all loop_event ?es" using le1 by simp
      moreover have "distinct (ingested (trace st @ ?es))"
        unfolding tr using d1 by (simp add: ingested_append)
      moreover have "trace st' = trace st @ ?es @ [Poll (Some rc)]"
        using st' t1 by simp
      moreover have "seen st' = set (ingested (trace st @ ?es))"
        unfolding tr using st' seen1 by (simp add: ingested_append)
      ultimately have "list_all loop_event ?es \<and> distinct (ingested (trace st @ ?es))
        \<and> (case res of
              Inl e \<Rightarrow> trace st' = trace st @ ?es
            | Inr rc \<Rightarrow> trace st' = trace st @ ?es @ [Poll (Some rc)]
                       \<and> seen st' = set (ingested (trace st @ ?es)))"
        using res by simp
      then show ?thesis by (rule exI)
    next
      case pn: None
      define st2 where "st2 = st1\<lparr>trace := trace st1 @ [Sleep, Poll None]\<rparr>"
      have t2: "trace st2 = trace st @ Scan # map AddHits ps @ [Sleep, Poll None]"
        using t1 by (simp add: st2_def)
      have i2: "ingested (trace st2) = ingested (trace st1)"
        by (simp add: st2_def ingested_append)
      have seen2: "seen st2 = set (ingested (trace st2))"
        using seen1 i2 by (simp add: st2_def)
      have d2: "distinct (ingested (trace st2))" using d1 i2 by simp
      from Cons.prems(1) turn ph None pn
      have "poll_loop accepts g turns st2 = Some (res, st')" by (simp add: st2_def)
      from Cons.IH[OF this seen2 d2] obtain es where
        le: "list_all loop_event es"
        and di: "distinct (ingested (trace st2 @ es))"
        and sh: "case res of
              Inl e \<Rightarrow> trace st' = trace st2 @ es
            | Inr rc \<Rightarrow> trace st' = trace st2 @ es @ [Poll (Some rc)]
                       \<and> seen st' = set (ingested (trace st2 @ es))"
        by blast
      let ?es = "Scan # map AddHits ps @ [Sleep, Poll None] @ es"
      have tr: "trace st @ ?es = trace st2 @ es" using t2 by simp
      have "list_all loop_event ?es" using le le1 by simp
      moreover have "distinct (ingested (trace st @ ?es))" unfolding tr by (rule di)
      moreover have "case res of
              Inl e \<Rightarrow> trace st' = trace st @ ?es
            | Inr rc \<Rightarrow> trace st' = trace st @ ?es @ [Poll (Some rc)]
                       \<and> seen st' = set (ingested (trace st @ ?es))"
        using sh t2 by (cases res) simp_all
      ultimately have "list_all loop_event ?es \<and> distinct (ingested (trace st @ ?es))
        \<and> (case res of
              Inl e \<Rightarrow> trace st' = trace st @ ?es
            | Inr rc \<Rightarrow> trace st' = trace st @ ?es @ [Poll (Some rc)]
                       \<and> seen st' = set (ingested (trace st @ ?es)))"
        by (intro conjI)
      then show ?thesis by (rule exI)
    qed
  qed
qed

text \<open>The events of a whole call of the wrapper that returns or raises.\<close>

lemma wrapper_grow_shape:
  assumes "wrapper_grow accepts g w table = Some (r, st)"
  shows "distinct (ingested (trace st)) \<and>
    ((\<exists>e es. r = Some e \<and> list_all loop_event es \<and> trace st = Popen # es)
     \<or> (\<exists>es rc ps after. list_all loop_event es
          \<and> trace st = Popen # es @ [Poll (Some rc), Scan] @ map AddHits ps @ after
          \<and> prefix ps (map fst (unseen_files (set (ingested es)) (drain w)))
          \<and> ((r \<noteq> None \<and> after = [])
             \<or> (ps = map fst (unseen_files (set (ingested es)) (drain w))
                \<and> ((rc \<le> 0 \<and> r = None \<and> after = [CheckExit rc])
                   \<or> (0 < rc \<and> r = Some (CalledProcessError rc None None)
                       \<and> after = [CheckExit rc, Communicate]))))))"
proof -
  have s0: "seen (start table) = set (ingested (trace (start table)))"
    and d0: "distinct (ingested (trace (start table)))"
    and t0: "trace (start table) = [Popen]"
    by (simp_all add: start_def)
  from assms obtain res st1 where pl: "poll_loop accepts g (cycles w) (start table) = Some (res, st1)"
    by (cases "poll_loop accepts g (cycles w) (start table)") (auto simp: wrapper_grow_def)
  from poll_loop_shape[OF pl s0 d0] obtain es where
    le: "list_all loop_event es"
    and di: "distinct (ingested (trace (start table) @ es))"
    and sh: "case res of
            Inl e \<Rightarrow> trace st1 = trace (start table) @ es
          | Inr rc \<Rightarrow> trace st1 = trace (start table) @ es @ [Poll (Some rc)]
                     \<and> seen st1 = set (ingested (trace (start table) @ es))"
    by blast
  have ing0: "ingested (trace (start table) @ es) = ingested es"
    using t0 by simp
  show ?thesis
  proof (cases res)
    case (Inl e)
    with assms pl have "r = Some e" "st = st1" by (auto simp: wrapper_grow_def)
    moreover from sh Inl t0 have "trace st1 = Popen # es" by simp
    ultimately have "distinct (ingested (trace st))"
      and "r = Some e \<and> list_all loop_event es \<and> trace st = Popen # es"
      using di ing0 le by simp_all
    then show ?thesis by blast
  next
    case (Inr rc)
    with sh t0 have t1: "trace st1 = Popen # es @ [Poll (Some rc)]"
      and seen1: "seen st1 = set (ingested es)" by simp_all
    have i1: "ingested (trace st1) = ingested es"
      using t1 by (simp add: ingested_append)
    have s1: "seen st1 = set (ingested (trace st1))" using seen1 i1 by simp
    have d1: "distinct (ingested (trace st1))" using di ing0 i1 by simp
    obtain r2 st2 where ph: "process_hits accepts g (drain w) st1 = (r2, st2)"
      by (cases "process_hits accepts g (drain w) st1") auto
    from process_hits_trace[OF ph] seen1 obtain ps where
      t2: "trace st2 = trace st1 @ Scan # map AddHits ps"
      and p2: "prefix ps (map fst (unseen_files (set (ingested es)) (drain w)))"
      and f2: "r2 = None \<longrightarrow> ps = map fst (unseen_files (set (ingested es)) (drain w))"
      by auto
    from process_hits_ingested[OF ph s1 d1] have d2: "distinct (ingested (trace st2))" by blast
    have t2': "trace st2 = Popen # es @ [Poll (Some rc), Scan] @ map AddHits ps"
      using t1 t2 by simp
    show ?thesis
    proof (cases r2)
      case (Some e)
      with assms pl Inr ph have "r = Some e" "st = st2" by (auto simp: wrapper_grow_def)
      then have "distinct (ingested (trace st))"
        and "list_all loop_event es
          \<and> trace st = Popen # es @ [Poll (Some rc), Scan] @ map AddHits ps @ []
          \<and> prefix ps (map fst (unseen_files (set (ingested es)) (drain w)))
          \<and> ((r \<noteq> None \<and> [] = [])
             \<or> (ps = map fst (unseen_files (set (ingested es)) (drain w))
                \<and> ((rc \<le> 0 \<and> r = None \<and> [] = [CheckExit rc])
                   \<or> (0 < rc \<and> r = Some (CalledProcessError rc None None)
                       \<and> [] = [CheckExit rc, Communicate]))))"
        using d2 le t2' p2 by simp_all
      then show ?thesis by blast
    next
      case None
      with f2 have full: "ps = map fst (unseen_files (set (ingested es)) (drain w))" by simp
      show ?thesis
      proof (cases "0 < rc")
        case True
        with assms pl Inr ph None have "r = Some (CalledProcessError rc None None)"
          and "st = st2\<lparr>trace := trace st2 @ [CheckExit rc, Communicate]\<rparr>"
          by (auto simp: wrapper_grow_def)
        then have "distinct (ingested (trace st))"
          and "list_all loop_event es
          \<and> trace st = Popen # es @ [Poll (Some rc), Scan] @ map AddHits ps @ [CheckExit rc, Communicate]
          \<and> prefix ps (map fst (unseen_files (set (ingested es)) (drain w)))
          \<and> ((r \<noteq> None \<and> [CheckExit rc, Communicate] = [])
             \<or> (ps = map fst (unseen_files (set (ingested es)) (drain w))
                \<and> ((rc \<le> 0 \<and> r = None \<and> [CheckExit rc, Communicate] = [CheckExit rc])
                   \<or> (0 < rc \<and> r = Some (CalledProcessError rc None None)
                       \<and> [CheckExit rc, Communicate] = [CheckExit rc, Communicate]))))"
          using d2 le t2' p2 full True by (simp_all add: ingested_append)
        then show ?thesis by blast
      next
        case False
        with assms pl Inr ph None have "r = None"
          and "st = st2\<lparr>trace := trace st2 @ [CheckExit rc]\<rparr>"
          by (auto simp: wrapper_grow_def)
        then have "distinct (ingested (trace st))"
          and "list_all loop_event es
          \<and> trace st = Popen # es @ [Poll (Some rc), Scan] @ map AddHits ps @ [CheckExit rc]
          \<and> prefix ps (map fst (unseen_files (set (ingested es)) (drain w)))
          \<and> ((r \<noteq> None \<and> [CheckExit rc] = [])
             \<or> (ps = map fst (unseen_files (set (ingested es)) (drain w))
                \<and> ((rc \<le> 0 \<and> r = None \<and> [CheckExit rc] = [CheckExit rc])
                   \<or> (0 < rc \<and> r = Some (CalledProcessError rc None None)
                       \<and> [CheckExit rc] = [CheckExit rc, Communicate]))))"
          using d2 le t2' p2 full False by (simp_all add: ingested_append)
        then show ?thesis by blast
      qed
    qed
  qed
qed

section \<open>The drain\<close>



section \<open>The set of seen files\<close>

lemma poll_loop_seen:
  "poll_loop accepts g turns st = Some (res, st') \<Longrightarrow> seen st \<subseteq> seen st'"
proof (induction turns arbitrary: st)
  case Nil
  then show ?case by simp
next
  case (Cons turn turns)
  obtain files polled where turn: "turn = (files, polled)" by (cases turn)
  obtain r st1 where ph: "process_hits accepts g files st = (r, st1)"
    by (cases "process_hits accepts g files st") auto
  from process_hits_seen[OF ph] have s1: "seen st \<subseteq> seen st1" by blast
  show ?case
  proof (cases r)
    case (Some e)
    with Cons.prems turn ph have "st' = st1" by auto
    with s1 show ?thesis by simp
  next
    case None
    show ?thesis
    proof (cases polled)
      case (Some rc)
      with Cons.prems turn ph None have "seen st' = seen st1" by auto
      with s1 show ?thesis by simp
    next
      case pn: None
      define st2 where "st2 = st1\<lparr>trace := trace st1 @ [Sleep, Poll None]\<rparr>"
      from Cons.prems turn ph None pn
      have "poll_loop accepts g turns st2 = Some (res, st')" by (simp add: st2_def)
      from Cons.IH[OF this] have "seen st2 \<subseteq> seen st'" .
      moreover have "seen st2 = seen st1" by (simp add: st2_def)
      ultimately show ?thesis using s1 by simp
    qed
  qed
qed

lemma process_hits_skips_seen:
  assumes "process_hits accepts g files st = (r, st')" and "p \<in> seen st"
  shows "AddHits p \<notin> set (drop (length (trace st)) (trace st'))"
proof -
  from process_hits_trace[OF assms(1)] obtain ps where
    t: "trace st' = trace st @ Scan # map AddHits ps"
    and pre: "prefix ps (map fst (unseen_files (seen st) files))"
    by blast
  from pre have "set ps \<subseteq> fst ` set (unseen_files (seen st) files)"
    by (metis set_map set_mono_prefix)
  then have "p \<notin> set ps"
    using unseen_files_fresh[of "seen st" files] assms(2) by blast
  then show ?thesis using t by auto
qed

text \<open>
  C4. During one run the set of seen files only grows: every pass and the whole polling loop
  leave it a superset of what it was. A pass never calls \<open>add_hits\<close> on a file that is in the
  set when the pass begins, and over a whole call of the wrapper, the drain included,
  \<open>add_hits\<close> is called at most once on each file: no file is taken up twice.
\<close>

theorem c4_seen_monotonic:
  "(process_hits accepts g files st = (r, st') \<longrightarrow>
      seen st \<subseteq> seen st'
      \<and> (\<forall>p \<in> seen st. AddHits p \<notin> set (drop (length (trace st)) (trace st'))))
   \<and> (poll_loop accepts g turns st = Some (res, st1) \<longrightarrow> seen st \<subseteq> seen st1)
   \<and> (wrapper_grow accepts g w table = Some (r2, st2) \<longrightarrow> distinct (ingested (trace st2)))"
proof (intro conjI impI ballI)
  assume "process_hits accepts g files st = (r, st')"
  then show "seen st \<subseteq> seen st'" using process_hits_seen by blast
next
  fix p assume "process_hits accepts g files st = (r, st')" "p \<in> seen st"
  then show "AddHits p \<notin> set (drop (length (trace st)) (trace st'))"
    by (rule process_hits_skips_seen)
next
  assume "poll_loop accepts g turns st = Some (res, st1)"
  then show "seen st \<subseteq> seen st1" by (rule poll_loop_seen)
next
  assume "wrapper_grow accepts g w table = Some (r2, st2)"
  then show "distinct (ingested (trace st2))" using wrapper_grow_shape by blast
qed

theorem c4_seen_monotonic_witness:
  "process_hits requires_score \<lparr>complex_set = [''4agn''], status = PENDING\<rparr>
      [(''a.sdf'', ''HIT_A\<newline>> <Score>\<newline>12.5\<newline>\<newline>$$$$\<newline>''),
       (''b.sdf'', ''HIT_C\<newline>> <Score>\<newline>5.0\<newline>\<newline>$$$$\<newline>'')]
      \<lparr>seen = {''a.sdf''}, db = [], trace = [Popen]\<rparr>
    = (None, \<lparr>seen = {''b.sdf'', ''a.sdf''},
         db = [\<lparr>name = ''HIT_C'', score = Some (PyFloat ''5.0''),
                 file_string = ''HIT_C\<newline>> <Score>\<newline>5.0\<newline>\<newline>$$$$\<newline>'',
                 file_type = ''sdf'', ensemble_scores = []\<rparr>],
         trace = [Popen, Scan, AddHits ''b.sdf'']\<rparr>)
   \<and> ''a.sdf'' \<in> {''a.sdf''}
   \<and> AddHits ''a.sdf'' \<notin> set [Scan, AddHits ''b.sdf'']
   \<and> poll_loop requires_score \<lparr>complex_set = [''4agn''], status = PENDING\<rparr>
        [([(''a.sdf'', ''HIT_A\<newline>> <Score>\<newline>12.5\<newline>\<newline>$$$$\<newline>'')], Some 0)]
        \<lparr>seen = {}, db = [], trace = [Popen]\<rparr>
      = Some (Inr 0, \<lparr>seen = {''a.sdf''},
          db = [\<lparr>name = ''HIT_A'', score = Some (PyFloat ''12.5''),
                  file_string = ''HIT_A\<newline>> <Score>\<newline>12.5\<newline>\<newline>$$$$\<newline>'',
                  file_type = ''sdf'', ensemble_scores = []\<rparr>],
          trace = [Popen, Scan, AddHits ''a.sdf'', Sleep, Poll (Some 0)]\<rparr>)
   \<and> wrapper_grow requires_score \<lparr>complex_set = [''4agn''], status = PENDING\<rparr>
        \<lparr>cycles = [([(''a.sdf'', ''HIT_A\<newline>> <Score>\<newline>12.5\<newline>\<newline>$$$$\<newline>'')], Some 0)],
         drain = [(''a.sdf'', ''HIT_A\<newline>> <Score>\<newline>12.5\<newline>\<newline>$$$$\<newline>'')]\<rparr> []
      = Some (None, \<lparr>seen = {''a.sdf''},
          db = [\<lparr>name = ''HIT_A'', score = Some (PyFloat ''12.5''),
                  file_string = ''HIT_A\<newline>> <Score>\<newline>12.5\<newline>\<newline>$$$$\<newline>'',
                  file_type = ''sdf'', ensemble_scores = []\<rparr>],
          trace = [Popen, Scan, AddHits ''a.sdf'', Sleep, Poll (Some 0), Scan, CheckExit 0]\<rparr>)
   \<and> distinct (ingested [Popen, Scan, AddHits ''a.sdf'', Sleep, Poll (Some 0), Scan, CheckExit 0])"
proof -
  let ?g = "\<lparr>complex_set = [''4agn''], status = PENDING\<rparr>"
  let ?a = "(''a.sdf'', ''HIT_A\<newline>> <Score>\<newline>12.5\<newline>\<newline>$$$$\<newline>'')"
  let ?b = "(''b.sdf'', ''HIT_C\<newline>> <Score>\<newline>5.0\<newline>\<newline>$$$$\<newline>'')"
  let ?ha = "\<lparr>name = ''HIT_A'', score = Some (PyFloat ''12.5''),
                  file_string = ''HIT_A\<newline>> <Score>\<newline>12.5\<newline>\<newline>$$$$\<newline>'',
                  file_type = ''sdf'', ensemble_scores = []\<rparr>"
  let ?hc = "\<lparr>name = ''HIT_C'', score = Some (PyFloat ''5.0''),
                 file_string = ''HIT_C\<newline>> <Score>\<newline>5.0\<newline>\<newline>$$$$\<newline>'',
                 file_type = ''sdf'', ensemble_scores = []\<rparr>"
  let ?s0 = "\<lparr>seen = {''a.sdf''}, db = [], trace = [Popen]\<rparr>"
  let ?s1 = "\<lparr>seen = {''b.sdf'', ''a.sdf''}, db = [?hc], trace = [Popen, Scan, AddHits ''b.sdf'']\<rparr>"
  let ?s2 = "\<lparr>seen = {}, db = [], trace = [Popen]\<rparr>"
  let ?s3 = "\<lparr>seen = {''a.sdf''}, db = [?ha],
          trace = [Popen, Scan, AddHits ''a.sdf'', Sleep, Poll (Some 0)]\<rparr>"
  let ?w = "\<lparr>cycles = [([?a], Some 0)], drain = [?a]\<rparr>"
  let ?s4 = "\<lparr>seen = {''a.sdf''}, db = [?ha],
          trace = [Popen, Scan, AddHits ''a.sdf'', Sleep, Poll (Some 0), Scan, CheckExit 0]\<rparr>"
  have pass: "process_hits requires_score ?g [?a, ?b] ?s0 = (None, ?s1)" by code_simp
  have loop: "poll_loop requires_score ?g [([?a], Some 0)] ?s2 = Some (Inr 0, ?s3)" by code_simp
  have run: "wrapper_grow requires_score ?g ?w [] = Some (None, ?s4)" by code_simp
  note fact = c4_seen_monotonic[of requires_score ?g "[?a, ?b]" ?s0 None ?s1
      "[([?a], Some 0)]" "Inr 0" ?s3 ?w "[]" None ?s4]
  from fact pass have "\<forall>p \<in> seen ?s0. AddHits p \<notin> set (drop (length (trace ?s0)) (trace ?s1))"
    by blast
  then have "AddHits ''a.sdf'' \<notin> set [Scan, AddHits ''b.sdf'']" by simp
  moreover from fact run have "distinct (ingested (trace ?s4))" by blast
  ultimately show ?thesis using pass loop run by simp
qed

section \<open>The status of the job\<close>

lemma wrapper_grow_saved:
  assumes "wrapper_grow accepts g w table = Some (r, st)"
  shows "\<exists>events. trace st = Popen # events \<and> saved events = []"
proof -
  from wrapper_grow_shape[OF assms] consider
    (raised) es where "list_all loop_event es" "trace st = Popen # es"
  | (drained) es rc ps after where "list_all loop_event es"
      "trace st = Popen # es @ [Poll (Some rc), Scan] @ map AddHits ps @ after"
      "after = [] \<or> after = [CheckExit rc] \<or> after = [CheckExit rc, Communicate]"
    by blast
  then show ?thesis
  proof cases
    case raised
    then show ?thesis using loop_event_saved by blast
  next
    case drained
    have "saved after = []" using drained(3) by auto
    then have "saved (es @ [Poll (Some rc), Scan] @ map AddHits ps @ after) = []"
      using loop_event_saved[OF drained(1)] by (simp add: saved_append saved_AddHits)
    with drained(2) show ?thesis by simp
  qed
qed

lemma saved_Nil_no_Save: "saved es = [] \<Longrightarrow> Save s \<notin> set es"
  by (induction es rule: saved.induct) auto

text \<open>
  C5, as amended. In every run of the task that ends, the status of the job is saved exactly
  once, as the last thing the task does: nothing is saved from the start of the process
  through the polling loop, the drain and the test of the return code, so the job keeps the
  status it had until then, and RUNNING is never set. The status saved is SUCCESS when the
  wrapper returns and FAILURE when it raises; the sequence of statuses is the initial one,
  then SUCCESS or FAILURE.
\<close>

theorem c5_status_sequence:
  assumes "task_grow accepts g w table = Some (r, g', st)"
  shows "(\<exists>events. trace st = Popen # events @ [Save (status g')] \<and> saved events = [])
    \<and> saved (trace st) = [status g']
    \<and> Save RUNNING \<notin> set (trace st)
    \<and> (status g' = SUCCESS \<or> status g' = FAILURE)
    \<and> (status g' = SUCCESS \<longleftrightarrow> r = None)
    \<and> complex_set g' = complex_set g"
proof -
  from assms obtain r0 st0 where wg: "wrapper_grow accepts g w table = Some (r0, st0)"
    by (cases "wrapper_grow accepts g w table") (auto simp: task_grow_def)
  from wrapper_grow_saved[OF wg] obtain events where
    ev: "trace st0 = Popen # events" "saved events = []" by blast
  have res: "r = r0 \<and> trace st = trace st0 @ [Save (status g')]
      \<and> (status g' = SUCCESS \<or> status g' = FAILURE)
      \<and> (status g' = SUCCESS \<longleftrightarrow> r = None) \<and> complex_set g' = complex_set g"
    using assms wg by (cases r0) (auto simp: task_grow_def)
  then have tr: "trace st = Popen # events @ [Save (status g')]" using ev(1) by simp
  have sv: "saved (trace st) = [status g']"
    using tr ev(2) by (simp add: saved_append)
  have "Save RUNNING \<notin> set events" using ev(2) by (rule saved_Nil_no_Save)
  moreover have "status g' \<noteq> RUNNING" using res by auto
  ultimately have nr: "Save RUNNING \<notin> set (trace st)" using tr by simp
  from tr ev(2) have "\<exists>events. trace st = Popen # events @ [Save (status g')] \<and> saved events = []"
    by blast
  with sv nr res show ?thesis by blast
qed

theorem c5_status_sequence_witness:
  "task_grow requires_score \<lparr>complex_set = [''4agn''], status = PENDING\<rparr>
      \<lparr>cycles = [([], None), ([], Some 0)], drain = []\<rparr> []
    = Some (None, \<lparr>complex_set = [''4agn''], status = SUCCESS\<rparr>,
        \<lparr>seen = {}, db = [],
         trace = [Popen, Scan, Sleep, Poll None, Scan, Sleep, Poll (Some 0), Scan, CheckExit 0,
                  Save SUCCESS]\<rparr>)
   \<and> saved [Popen, Scan, Sleep, Poll None, Scan, Sleep, Poll (Some 0), Scan, CheckExit 0,
             Save SUCCESS] = [SUCCESS]"
proof -
  let ?st = "\<lparr>seen = {}, db = [],
         trace = [Popen, Scan, Sleep, Poll None, Scan, Sleep, Poll (Some 0), Scan, CheckExit 0,
                  Save SUCCESS]\<rparr>"
  have run: "task_grow requires_score \<lparr>complex_set = [''4agn''], status = PENDING\<rparr>
      \<lparr>cycles = [([], None), ([], Some 0)], drain = []\<rparr> []
    = Some (None, \<lparr>complex_set = [''4agn''], status = SUCCESS\<rparr>, ?st)"
    by code_simp
  from c5_status_sequence[OF run]
  have "saved (trace ?st) = [status \<lparr>complex_set = [''4agn''], status = SUCCESS\<rparr>]"
    by blast
  with run show ?thesis by simp
qed

text \<open>
  The claim as written fails in every run: in the run below the process starts, the loop
  polls twice and the drain follows, and the only status ever saved is the final one; while
  the loop runs the job still has the status it came with.
\<close>

theorem c5_status_sequence_counterexample:
  "task_grow requires_score \<lparr>complex_set = [''4agn''], status = PENDING\<rparr>
      \<lparr>cycles = [([], None), ([], Some 0)], drain = []\<rparr> []
    = Some (None, \<lparr>complex_set = [''4agn''], status = SUCCESS\<rparr>,
        \<lparr>seen = {}, db = [],
         trace = [Popen, Scan, Sleep, Poll None, Scan, Sleep, Poll (Some 0), Scan, CheckExit 0,
                  Save SUCCESS]\<rparr>)
   \<and> Save RUNNING \<notin> set [Popen, Scan, Sleep, Poll None, Scan, Sleep, Poll (Some 0), Scan,
                           CheckExit 0, Save SUCCESS]"
  by code_simp

section \<open>The return code\<close>

text \<open>
  C1, as amended. For every run in which the polling loop finds the process terminated with
  return code \<open>rc\<close> and neither a pass of the loop nor the drain raises: the task ends; if
  \<open>rc\<close> is 0, nothing is raised and the status of the job is set to SUCCESS; if \<open>rc\<close> is
  positive, a \<open>CalledProcessError\<close> carrying \<open>rc\<close> is raised and the status is set to FAILURE.
  When a pass of the loop or the drain raises, the task raises that very error and the status
  is set to FAILURE, whatever the return code: the error of a pass ends the loop at once, in
  whatever turn it comes, and a pass that ends well hands over to the poll and to the next
  turn. In every run of the task that ends, the status is SUCCESS exactly when nothing is
  raised and FAILURE exactly when something is. A loop that meets a poll with a return code
  ends.
\<close>

theorem c1_exit_code:
  "(poll_loop accepts g (cycles w) (start table) = Some (Inr rc, st1)
      \<and> fst (process_hits accepts g (drain w) st1) = None \<longrightarrow>
        (rc = 0 \<longrightarrow> (\<exists>st. task_grow accepts g w table = Some (None, g\<lparr>status := SUCCESS\<rparr>, st)))
      \<and> (0 < rc \<longrightarrow> (\<exists>out err st. task_grow accepts g w table
              = Some (Some (CalledProcessError rc out err), g\<lparr>status := FAILURE\<rparr>, st))))
   \<and> (poll_loop accepts g (cycles w) (start table) = Some (Inl e, st1) \<longrightarrow>
        task_grow accepts g w table
          = Some (Some e, g\<lparr>status := FAILURE\<rparr>, st1\<lparr>trace := trace st1 @ [Save FAILURE]\<rparr>))
   \<and> (poll_loop accepts g (cycles w) (start table) = Some (Inr rc, st1)
        \<and> process_hits accepts g (drain w) st1 = (Some e, st2) \<longrightarrow>
        task_grow accepts g w table
          = Some (Some e, g\<lparr>status := FAILURE\<rparr>, st2\<lparr>trace := trace st2 @ [Save FAILURE]\<rparr>))
   \<and> (process_hits accepts g files st = (Some e, st3) \<longrightarrow>
        poll_loop accepts g ((files, polled) # later) st = Some (Inl e, st3))
   \<and> (process_hits accepts g files st = (None, st3) \<longrightarrow>
        poll_loop accepts g ((files, None) # later) st
          = poll_loop accepts g later (st3\<lparr>trace := trace st3 @ [Sleep, Poll None]\<rparr>)
      \<and> poll_loop accepts g ((files, Some rc) # later) st
          = Some (Inr rc, st3\<lparr>trace := trace st3 @ [Sleep, Poll (Some rc)]\<rparr>))
   \<and> (task_grow accepts g w table = Some (r, g', st') \<longrightarrow>
        (r = None \<longleftrightarrow> status g' = SUCCESS) \<and> (r \<noteq> None \<longleftrightarrow> status g' = FAILURE))
   \<and> ((\<exists>turn \<in> set (cycles w). snd turn \<noteq> None) \<longrightarrow> task_grow accepts g w table \<noteq> None)"
proof (intro conjI impI)
  assume a: "poll_loop accepts g (cycles w) (start table) = Some (Inr rc, st1)
      \<and> fst (process_hits accepts g (drain w) st1) = None"
  obtain st2 where ph: "process_hits accepts g (drain w) st1 = (None, st2)"
    using a by (cases "process_hits accepts g (drain w) st1") auto
  {
    assume "rc = 0"
    with a ph have "task_grow accepts g w table
        = Some (None, g\<lparr>status := SUCCESS\<rparr>,
                st2\<lparr>trace := trace st2 @ [CheckExit rc, Save SUCCESS]\<rparr>)"
      by (simp add: task_grow_def wrapper_grow_def)
    then show "\<exists>st. task_grow accepts g w table = Some (None, g\<lparr>status := SUCCESS\<rparr>, st)"
      by (rule exI)
  }
  {
    assume "0 < rc"
    with a ph have "task_grow accepts g w table
        = Some (Some (CalledProcessError rc None None), g\<lparr>status := FAILURE\<rparr>,
                st2\<lparr>trace := trace st2 @ [CheckExit rc, Communicate, Save FAILURE]\<rparr>)"
      by (simp add: task_grow_def wrapper_grow_def)
    then show "\<exists>out err st. task_grow accepts g w table
              = Some (Some (CalledProcessError rc out err), g\<lparr>status := FAILURE\<rparr>, st)"
      by blast
  }
next
  assume "poll_loop accepts g (cycles w) (start table) = Some (Inl e, st1)"
  then show "task_grow accepts g w table
          = Some (Some e, g\<lparr>status := FAILURE\<rparr>, st1\<lparr>trace := trace st1 @ [Save FAILURE]\<rparr>)"
    by (simp add: task_grow_def wrapper_grow_def)
next
  assume "poll_loop accepts g (cycles w) (start table) = Some (Inr rc, st1)
        \<and> process_hits accepts g (drain w) st1 = (Some e, st2)"
  then show "task_grow accepts g w table
          = Some (Some e, g\<lparr>status := FAILURE\<rparr>, st2\<lparr>trace := trace st2 @ [Save FAILURE]\<rparr>)"
    by (simp add: task_grow_def wrapper_grow_def)
next
  assume "process_hits accepts g files st = (Some e, st3)"
  then show "poll_loop accepts g ((files, polled) # later) st = Some (Inl e, st3)"
    by simp
next
  assume "process_hits accepts g files st = (None, st3)"
  then show "poll_loop accepts g ((files, None) # later) st
          = poll_loop accepts g later (st3\<lparr>trace := trace st3 @ [Sleep, Poll None]\<rparr>)"
    by simp
next
  assume "process_hits accepts g files st = (None, st3)"
  then show "poll_loop accepts g ((files, Some rc) # later) st
          = Some (Inr rc, st3\<lparr>trace := trace st3 @ [Sleep, Poll (Some rc)]\<rparr>)"
    by simp
next
  assume t: "task_grow accepts g w table = Some (r, g', st')"
  then obtain r0 st0 where "wrapper_grow accepts g w table = Some (r0, st0)"
    by (cases "wrapper_grow accepts g w table") (auto simp: task_grow_def)
  with t show "(r = None) = (status g' = SUCCESS)"
    by (cases r0) (auto simp: task_grow_def)
next
  assume t: "task_grow accepts g w table = Some (r, g', st')"
  then obtain r0 st0 where "wrapper_grow accepts g w table = Some (r0, st0)"
    by (cases "wrapper_grow accepts g w table") (auto simp: task_grow_def)
  with t show "(r \<noteq> None) = (status g' = FAILURE)"
    by (cases r0) (auto simp: task_grow_def)
next
  assume "\<exists>turn \<in> set (cycles w). snd turn \<noteq> None"
  then have "poll_loop accepts g (cycles w) (start table) \<noteq> None"
    by (rule poll_loop_returns)
  then have "wrapper_grow accepts g w table \<noteq> None"
    by (auto simp: wrapper_grow_def split: option.splits sum.splits prod.splits)
  then show "task_grow accepts g w table \<noteq> None"
    by (auto simp: task_grow_def split: option.splits)
qed

theorem c1_exit_code_witness:
  "poll_loop requires_score \<lparr>complex_set = [''4agn''], status = PENDING\<rparr>
      [([(''a.sdf'', ''HIT_A\<newline>> <Score>\<newline>12.5\<newline>\<newline>$$$$\<newline>'')], Some 0)] (start [])
     = Some (Inr 0, \<lparr>seen = {''a.sdf''},
          db = [\<lparr>name = ''HIT_A'', score = Some (PyFloat ''12.5''),
                  file_string = ''HIT_A\<newline>> <Score>\<newline>12.5\<newline>\<newline>$$$$\<newline>'',
                  file_type = ''sdf'', ensemble_scores = []\<rparr>],
          trace = [Popen, Scan, AddHits ''a.sdf'', Sleep, Poll (Some 0)]\<rparr>)
   \<and> task_grow requires_score \<lparr>complex_set = [''4agn''], status = PENDING\<rparr>
        \<lparr>cycles = [([(''a.sdf'', ''HIT_A\<newline>> <Score>\<newline>12.5\<newline>\<newline>$$$$\<newline>'')], Some 0)],
         drain = []\<rparr> []
     = Some (None, \<lparr>complex_set = [''4agn''], status = SUCCESS\<rparr>,
          \<lparr>seen = {''a.sdf''},
           db = [\<lparr>name = ''HIT_A'', score = Some (PyFloat ''12.5''),
                   file_string = ''HIT_A\<newline>> <Score>\<newline>12.5\<newline>\<newline>$$$$\<newline>'',
                   file_type = ''sdf'', ensemble_scores = []\<rparr>],
           trace = [Popen, Scan, AddHits ''a.sdf'', Sleep, Poll (Some 0), Scan, CheckExit 0,
                    Save SUCCESS]\<rparr>)
   \<and> poll_loop requires_score \<lparr>complex_set = [''4agn''], status = PENDING\<rparr>
      [([], Some 1)] (start [])
     = Some (Inr 1, \<lparr>seen = {}, db = [], trace = [Popen, Scan, Sleep, Poll (Some 1)]\<rparr>)
   \<and> task_grow requires_score \<lparr>complex_set = [''4agn''], status = PENDING\<rparr>
        \<lparr>cycles = [([], Some 1)], drain = []\<rparr> []
     = Some (Some (CalledProcessError 1 None None), \<lparr>complex_set = [''4agn''], status = FAILURE\<rparr>,
          \<lparr>seen = {}, db = [],
           trace = [Popen, Scan, Sleep, Poll (Some 1), Scan, CheckExit 1, Communicate,
                    Save FAILURE]\<rparr>)
   \<and> (\<exists>turn \<in> set [([] :: listing, Some (1 :: int))]. snd turn \<noteq> None)
   \<and> process_hits requires_score \<lparr>complex_set = [''4agn''], status = PENDING\<rparr>
        [(''hits.sdf'', ''HIT_B\<newline>> <Score>\<newline>n/a\<newline>\<newline>$$$$\<newline>'')]
        \<lparr>seen = {}, db = [], trace = [Popen, Scan, Sleep, Poll (Some 1)]\<rparr>
     = (Some ValueError,
        \<lparr>seen = {}, db = [],
         trace = [Popen, Scan, Sleep, Poll (Some 1), Scan, AddHits ''hits.sdf'']\<rparr>)
   \<and> task_grow requires_score \<lparr>complex_set = [''4agn''], status = PENDING\<rparr>
        \<lparr>cycles = [([], Some 1)],
         drain = [(''hits.sdf'', ''HIT_B\<newline>> <Score>\<newline>n/a\<newline>\<newline>$$$$\<newline>'')]\<rparr> []
     = Some (Some ValueError, \<lparr>complex_set = [''4agn''], status = FAILURE\<rparr>,
          \<lparr>seen = {}, db = [],
           trace = [Popen, Scan, Sleep, Poll (Some 1), Scan, AddHits ''hits.sdf'',
                    Save FAILURE]\<rparr>)
   \<and> process_hits requires_score \<lparr>complex_set = [''4agn''], status = PENDING\<rparr>
        [(''hits.sdf'', ''HIT_B\<newline>> <Score>\<newline>n/a\<newline>\<newline>$$$$\<newline>'')] (start [])
     = (Some ValueError, \<lparr>seen = {}, db = [], trace = [Popen, Scan, AddHits ''hits.sdf'']\<rparr>)
   \<and> poll_loop requires_score \<lparr>complex_set = [''4agn''], status = PENDING\<rparr>
        [([(''hits.sdf'', ''HIT_B\<newline>> <Score>\<newline>n/a\<newline>\<newline>$$$$\<newline>'')], None), ([], Some 0)]
        (start [])
     = Some (Inl ValueError, \<lparr>seen = {}, db = [], trace = [Popen, Scan, AddHits ''hits.sdf'']\<rparr>)
   \<and> task_grow requires_score \<lparr>complex_set = [''4agn''], status = PENDING\<rparr>
        \<lparr>cycles = [([(''hits.sdf'', ''HIT_B\<newline>> <Score>\<newline>n/a\<newline>\<newline>$$$$\<newline>'')], None),
                   ([], Some 0)],
         drain = []\<rparr> []
     = Some (Some ValueError, \<lparr>complex_set = [''4agn''], status = FAILURE\<rparr>,
          \<lparr>seen = {}, db = [], trace = [Popen, Scan, AddHits ''hits.sdf'', Save FAILURE]\<rparr>)
   \<and> process_hits requires_score \<lparr>complex_set = [''4agn''], status = PENDING\<rparr> [] (start [])
     = (None, \<lparr>seen = {}, db = [], trace = [Popen, Scan]\<rparr>)
   \<and> poll_loop requires_score \<lparr>complex_set = [''4agn''], status = PENDING\<rparr>
        [([], None), ([], Some 1)] (start [])
     = poll_loop requires_score \<lparr>complex_set = [''4agn''], status = PENDING\<rparr>
        [([], Some 1)] \<lparr>seen = {}, db = [], trace = [Popen, Scan, Sleep, Poll None]\<rparr>"
proof -
  let ?g = "\<lparr>complex_set = [''4agn''], status = PENDING\<rparr>"
  let ?a = "(''a.sdf'', ''HIT_A\<newline>> <Score>\<newline>12.5\<newline>\<newline>$$$$\<newline>'')"
  let ?bad = "(''hits.sdf'', ''HIT_B\<newline>> <Score>\<newline>n/a\<newline>\<newline>$$$$\<newline>'')"
  let ?ha = "\<lparr>name = ''HIT_A'', score = Some (PyFloat ''12.5''),
                  file_string = ''HIT_A\<newline>> <Score>\<newline>12.5\<newline>\<newline>$$$$\<newline>'',
                  file_type = ''sdf'', ensemble_scores = []\<rparr>"
  let ?w0 = "\<lparr>cycles = [([?a], Some 0)], drain = []\<rparr>"
  let ?w1 = "\<lparr>cycles = [([] :: listing, Some 1)], drain = []\<rparr>"
  let ?w2 = "\<lparr>cycles = [([] :: listing, Some 1)], drain = [?bad]\<rparr>"
  let ?w3 = "\<lparr>cycles = [([?bad], None), ([], Some 0)], drain = []\<rparr>"
  let ?s0 = "\<lparr>seen = {''a.sdf''}, db = [?ha],
          trace = [Popen, Scan, AddHits ''a.sdf'', Sleep, Poll (Some 0)]\<rparr>"
  let ?s1 = "\<lparr>seen = {} :: string set, db = [] :: hit list, trace = [Popen, Scan, Sleep, Poll (Some 1)]\<rparr>"
  let ?t0 = "\<lparr>seen = {''a.sdf''}, db = [?ha],
           trace = [Popen, Scan, AddHits ''a.sdf'', Sleep, Poll (Some 0), Scan, CheckExit 0,
                    Save SUCCESS]\<rparr>"
  let ?t1 = "\<lparr>seen = {} :: string set, db = [] :: hit list,
           trace = [Popen, Scan, Sleep, Poll (Some 1), Scan, CheckExit 1, Communicate,
                    Save FAILURE]\<rparr>"
  let ?d2 = "\<lparr>seen = {} :: string set, db = [] :: hit list,
         trace = [Popen, Scan, Sleep, Poll (Some 1), Scan, AddHits ''hits.sdf'']\<rparr>"
  let ?l3 = "\<lparr>seen = {} :: string set, db = [] :: hit list, trace = [Popen, Scan, AddHits ''hits.sdf'']\<rparr>"
  let ?e4 = "\<lparr>seen = {} :: string set, db = [] :: hit list, trace = [Popen, Scan]\<rparr>"
  have loop0: "poll_loop requires_score ?g (cycles ?w0) (start []) = Some (Inr 0, ?s0)"
    by code_simp
  have drain0: "fst (process_hits requires_score ?g (drain ?w0) ?s0) = None"
    by code_simp
  have loop1: "poll_loop requires_score ?g (cycles ?w1) (start []) = Some (Inr 1, ?s1)"
    by code_simp
  have drain1: "fst (process_hits requires_score ?g (drain ?w1) ?s1) = None"
    by code_simp
  have run0: "task_grow requires_score ?g ?w0 [] = Some (None, ?g\<lparr>status := SUCCESS\<rparr>, ?t0)"
    by code_simp
  have run1: "task_grow requires_score ?g ?w1 []
      = Some (Some (CalledProcessError 1 None None), ?g\<lparr>status := FAILURE\<rparr>, ?t1)"
    by code_simp
  have polled: "\<exists>turn \<in> set (cycles ?w1). snd turn \<noteq> None" by simp
  have loop2: "poll_loop requires_score ?g (cycles ?w2) (start []) = Some (Inr 1, ?s1)"
    by code_simp
  have drain2: "process_hits requires_score ?g (drain ?w2) ?s1 = (Some ValueError, ?d2)"
    by code_simp
  have pass3: "process_hits requires_score ?g [?bad] (start []) = (Some ValueError, ?l3)"
    by code_simp
  have pass4: "process_hits requires_score ?g [] (start []) = (None, ?e4)"
    by code_simp
  from c1_exit_code[where accepts = requires_score and g = ?g and w = ?w0 and table = "[]"
      and rc = 0 and ?st1.0 = ?s0 and r = None and g' = "?g\<lparr>status := SUCCESS\<rparr>" and st' = ?t0]
    loop0 drain0 run0
  have ok: "status (?g\<lparr>status := SUCCESS\<rparr>) = SUCCESS" by blast
  from c1_exit_code[where accepts = requires_score and g = ?g and w = ?w1 and table = "[]"
      and rc = 1 and ?st1.0 = ?s1 and r = "Some (CalledProcessError 1 None None)"
      and g' = "?g\<lparr>status := FAILURE\<rparr>" and st' = ?t1]
    loop1 drain1 run1 polled
  have failed: "status (?g\<lparr>status := FAILURE\<rparr>) = FAILURE
      \<and> task_grow requires_score ?g ?w1 [] \<noteq> None" by blast
  from c1_exit_code[where accepts = requires_score and g = ?g and w = ?w2 and table = "[]"
      and rc = 1 and ?st1.0 = ?s1 and e = ValueError and ?st2.0 = ?d2]
    loop2 drain2
  have run2: "task_grow requires_score ?g ?w2 []
      = Some (Some ValueError, ?g\<lparr>status := FAILURE\<rparr>, ?d2\<lparr>trace := trace ?d2 @ [Save FAILURE]\<rparr>)"
    by blast
  from c1_exit_code[where accepts = requires_score and g = ?g and files = "[?bad]"
      and st = "start []" and e = ValueError and ?st3.0 = ?l3 and polled = None
      and later = "[([], Some 0)]"]
    pass3
  have loop3: "poll_loop requires_score ?g (([?bad], None) # [([], Some 0)]) (start [])
      = Some (Inl ValueError, ?l3)"
    by blast
  then have loop3': "poll_loop requires_score ?g (cycles ?w3) (start []) = Some (Inl ValueError, ?l3)"
    by simp
  from c1_exit_code[where accepts = requires_score and g = ?g and w = ?w3 and table = "[]"
      and e = ValueError and ?st1.0 = ?l3]
    loop3'
  have run3: "task_grow requires_score ?g ?w3 []
      = Some (Some ValueError, ?g\<lparr>status := FAILURE\<rparr>, ?l3\<lparr>trace := trace ?l3 @ [Save FAILURE]\<rparr>)"
    by blast
  from c1_exit_code[where accepts = requires_score and g = ?g and files = "[]"
      and st = "start []" and ?st3.0 = ?e4 and later = "[([], Some 1)]"]
    pass4
  have step4: "poll_loop requires_score ?g (([], None) # [([], Some 1)]) (start [])
      = poll_loop requires_score ?g [([], Some 1)] (?e4\<lparr>trace := trace ?e4 @ [Sleep, Poll None]\<rparr>)"
    by blast
  show ?thesis
    using ok failed loop0 run0 loop1 run1 polled drain2 run2 pass3 loop3 run3 pass4 step4
    by simp
qed

text \<open>
  The claim as written fails in two ways. A process that exits with code 0 while the drain
  meets a score that is no number: the task raises \<open>ValueError\<close> and the status is FAILURE.
  A process ended by a signal, with the negative return code -11: the test
  \<open>returncode > 0\<close> lets it pass, nothing is raised and the status is SUCCESS.
\<close>

theorem c1_exit_code_counterexample:
  "task_grow requires_score \<lparr>complex_set = [''4agn''], status = PENDING\<rparr>
        \<lparr>cycles = [([], Some 0)],
         drain = [(''hits.sdf'', ''HIT_A\<newline>> <Score>\<newline>n/a\<newline>\<newline>$$$$\<newline>'')]\<rparr> []
     = Some (Some ValueError, \<lparr>complex_set = [''4agn''], status = FAILURE\<rparr>,
          \<lparr>seen = {}, db = [],
           trace = [Popen, Scan, Sleep, Poll (Some 0), Scan, AddHits ''hits.sdf'',
                    Save FAILURE]\<rparr>)
   \<and> task_grow requires_score \<lparr>complex_set = [''4agn''], status = PENDING\<rparr>
        \<lparr>cycles = [([], Some (- 11))], drain = []\<rparr> []
     = Some (None, \<lparr>complex_set = [''4agn''], status = SUCCESS\<rparr>,
          \<lparr>seen = {}, db = [],
           trace = [Popen, Scan, Sleep, Poll (Some (- 11)), Scan, CheckExit (- 11),
                    Save SUCCESS]\<rparr>)"
  by code_simp

section \<open>The unit of atomicity\<close>

lemma save_hits_success_rows:
  "fst (save_hits accepts g records []) = None \<Longrightarrow>
   map (make_hit g) records = map Inr (snd (save_hits accepts g records []))"
proof (induction records)
  case Nil
  show ?case by simp
next
  case (Cons m ms)
  show ?case
  proof (cases "make_hit g m")
    case (Inl e)
    with Cons.prems show ?thesis by simp
  next
    case (Inr h)
    show ?thesis
    proof (cases "accepts h")
      case False
      with Inr Cons.prems show ?thesis by simp
    next
      case True
      have shift: "save_hits accepts g ms ([] @ [h])
          = (fst (save_hits accepts g ms []), ([] @ [h]) @ snd (save_hits accepts g ms []))"
        by (rule save_hits_shift)
      with Inr True Cons.prems have ok: "fst (save_hits accepts g ms []) = None" by simp
      have "snd (save_hits accepts g (m # ms) []) = h # snd (save_hits accepts g ms [])"
        using Inr True shift by simp
      with Cons.IH[OF ok] Inr show ?thesis by simp
    qed
  qed
qed

lemma add_hits_success_rows:
  "fst (add_hits accepts g data []) = None \<Longrightarrow>
   map (make_hit g) (mol_strings data) = map Inr (snd (add_hits accepts g data []))"
  unfolding add_hits_def by (rule save_hits_success_rows)

lemma process_hits_db_prefix:
  assumes "process_hits accepts g files st = (r, st')"
  shows "prefix (db st) (db st')"
proof (cases r)
  case None
  with process_hits_db[OF assms] show ?thesis by (simp add: prefix_def)
next
  case (Some e)
  with process_hits_db[OF assms] show ?thesis by simp
qed

lemma poll_loop_db_prefix:
  "poll_loop accepts g turns st = Some (res, st') \<Longrightarrow> prefix (db st) (db st')"
proof (induction turns arbitrary: st)
  case Nil
  then show ?case by simp
next
  case (Cons turn turns)
  obtain files polled where turn: "turn = (files, polled)" by (cases turn)
  obtain r st1 where ph: "process_hits accepts g files st = (r, st1)"
    by (cases "process_hits accepts g files st") auto
  have p1: "prefix (db st) (db st1)" using ph by (rule process_hits_db_prefix)
  show ?case
  proof (cases r)
    case (Some e)
    with Cons.prems turn ph have "st' = st1" by auto
    with p1 show ?thesis by simp
  next
    case None
    show ?thesis
    proof (cases polled)
      case (Some rc)
      with Cons.prems turn ph None have "db st' = db st1" by auto
      with p1 show ?thesis by simp
    next
      case pn: None
      define st2 where "st2 = st1\<lparr>trace := trace st1 @ [Sleep, Poll None]\<rparr>"
      from Cons.prems turn ph None pn
      have "poll_loop accepts g turns st2 = Some (res, st')" by (simp add: st2_def)
      from Cons.IH[OF this] have "prefix (db st2) (db st')" .
      moreover have "db st2 = db st1" by (simp add: st2_def)
      ultimately show ?thesis using p1 by (metis prefix_order.trans)
    qed
  qed
qed

text \<open>
  C2, as amended. Persistence is atomic per pass: the hits of all files that one scan takes
  up are stored inside one transaction. When a pass raises, whatever hit of whatever file
  failed to parse, cast or store, the table of hits is what it was before the pass: no hit of
  any file of the pass is visible. When a pass ends well, the table has gained, in order, for
  every file taken up the hits of all its records. In either case, and over the whole polling
  loop, the hits stored by earlier passes stay in the table.
\<close>

theorem c2_pass_atomic:
  "(process_hits accepts g files st = (r, st') \<longrightarrow>
      (r \<noteq> None \<longrightarrow> db st' = db st)
    \<and> (r = None \<longrightarrow>
          db st' = db st @ concat (map (\<lambda>(p, d). snd (add_hits accepts g d []))
                                      (unseen_files (seen st) files))
        \<and> (\<forall>(p, d) \<in> set (unseen_files (seen st) files).
              fst (add_hits accepts g d []) = None
            \<and> map (make_hit g) (mol_strings d) = map Inr (snd (add_hits accepts g d []))))
    \<and> prefix (db st) (db st'))
   \<and> (poll_loop accepts g turns st = Some (res, st1) \<longrightarrow> prefix (db st) (db st1))"
proof (intro conjI impI)
  assume ph: "process_hits accepts g files st = (r, st')"
  {
    assume "r \<noteq> None"
    with process_hits_db[OF ph] show "db st' = db st" by blast
  }
  {
    assume none: "r = None"
    with process_hits_db[OF ph] show "db st' = db st @ concat (map (\<lambda>(p, d). snd (add_hits accepts g d []))
                                      (unseen_files (seen st) files))"
      by blast
    from none process_hits_db[OF ph]
    have ok: "\<forall>(p, d) \<in> set (unseen_files (seen st) files). fst (add_hits accepts g d []) = None"
      by blast
    show "\<forall>(p, d) \<in> set (unseen_files (seen st) files).
              fst (add_hits accepts g d []) = None
            \<and> map (make_hit g) (mol_strings d) = map Inr (snd (add_hits accepts g d []))"
    proof (clarify, intro conjI)
      fix p d assume "(p, d) \<in> set (unseen_files (seen st) files)"
      with ok show a: "fst (add_hits accepts g d []) = None" by blast
      then show "map (make_hit g) (mol_strings d) = map Inr (snd (add_hits accepts g d []))"
        by (rule add_hits_success_rows)
    qed
  }
  show "prefix (db st) (db st')" using ph by (rule process_hits_db_prefix)
next
  assume "poll_loop accepts g turns st = Some (res, st1)"
  then show "prefix (db st) (db st1)" by (rule poll_loop_db_prefix)
qed

theorem c2_pass_atomic_witness:
  "process_hits requires_score \<lparr>complex_set = [''4agn''], status = PENDING\<rparr>
      [(''a.sdf'', ''HIT_A\<newline>> <Score>\<newline>12.5\<newline>\<newline>$$$$\<newline>''),
       (''b.sdf'', ''HIT_C\<newline>> <Score>\<newline>5.0\<newline>\<newline>$$$$\<newline>'')]
      \<lparr>seen = {''a.sdf''}, db = [], trace = [Popen]\<rparr>
    = (None, \<lparr>seen = {''b.sdf'', ''a.sdf''},
         db = [\<lparr>name = ''HIT_C'', score = Some (PyFloat ''5.0''),
                 file_string = ''HIT_C\<newline>> <Score>\<newline>5.0\<newline>\<newline>$$$$\<newline>'',
                 file_type = ''sdf'', ensemble_scores = []\<rparr>],
         trace = [Popen, Scan, AddHits ''b.sdf'']\<rparr>)
   \<and> (''b.sdf'', ''HIT_C\<newline>> <Score>\<newline>5.0\<newline>\<newline>$$$$\<newline>'')
       \<in> set (unseen_files {''a.sdf''}
            [(''a.sdf'', ''HIT_A\<newline>> <Score>\<newline>12.5\<newline>\<newline>$$$$\<newline>''),
             (''b.sdf'', ''HIT_C\<newline>> <Score>\<newline>5.0\<newline>\<newline>$$$$\<newline>'')])
   \<and> fst (add_hits requires_score \<lparr>complex_set = [''4agn''], status = PENDING\<rparr>
         ''HIT_C\<newline>> <Score>\<newline>5.0\<newline>\<newline>$$$$\<newline>'' []) = None
   \<and> process_hits requires_score \<lparr>complex_set = [''4agn''], status = PENDING\<rparr>
      [(''b.sdf'', ''HIT_C\<newline>> <Score>\<newline>n/a\<newline>\<newline>$$$$\<newline>'')]
      \<lparr>seen = {''a.sdf''}, db = [], trace = [Popen]\<rparr>
    = (Some ValueError, \<lparr>seen = {''a.sdf''}, db = [], trace = [Popen, Scan, AddHits ''b.sdf'']\<rparr>)
   \<and> poll_loop requires_score \<lparr>complex_set = [''4agn''], status = PENDING\<rparr>
        [([], Some 0)] \<lparr>seen = {}, db = [], trace = [Popen]\<rparr>
      = Some (Inr 0, \<lparr>seen = {}, db = [], trace = [Popen, Scan, Sleep, Poll (Some 0)]\<rparr>)
   \<and> prefix ([] :: hit list) []"
proof -
  let ?g = "\<lparr>complex_set = [''4agn''], status = PENDING\<rparr>"
  let ?a = "(''a.sdf'', ''HIT_A\<newline>> <Score>\<newline>12.5\<newline>\<newline>$$$$\<newline>'')"
  let ?b = "(''b.sdf'', ''HIT_C\<newline>> <Score>\<newline>5.0\<newline>\<newline>$$$$\<newline>'')"
  let ?bad = "(''b.sdf'', ''HIT_C\<newline>> <Score>\<newline>n/a\<newline>\<newline>$$$$\<newline>'')"
  let ?hc = "\<lparr>name = ''HIT_C'', score = Some (PyFloat ''5.0''),
                 file_string = ''HIT_C\<newline>> <Score>\<newline>5.0\<newline>\<newline>$$$$\<newline>'',
                 file_type = ''sdf'', ensemble_scores = []\<rparr>"
  let ?s0 = "\<lparr>seen = {''a.sdf''}, db = [] :: hit list, trace = [Popen]\<rparr>"
  let ?s1 = "\<lparr>seen = {''b.sdf'', ''a.sdf''}, db = [?hc], trace = [Popen, Scan, AddHits ''b.sdf'']\<rparr>"
  let ?s2 = "\<lparr>seen = {''a.sdf''}, db = [] :: hit list, trace = [Popen, Scan, AddHits ''b.sdf'']\<rparr>"
  let ?s3 = "\<lparr>seen = {} :: string set, db = [] :: hit list, trace = [Popen]\<rparr>"
  let ?s4 = "\<lparr>seen = {} :: string set, db = [] :: hit list, trace = [Popen, Scan, Sleep, Poll (Some 0)]\<rparr>"
  have good: "process_hits requires_score ?g [?a, ?b] ?s0 = (None, ?s1)" by code_simp
  have new: "?b \<in> set (unseen_files (seen ?s0) [?a, ?b])" by simp
  have bad: "process_hits requires_score ?g [?bad] ?s0 = (Some ValueError, ?s2)" by code_simp
  have loop: "poll_loop requires_score ?g [([], Some 0)] ?s3 = Some (Inr 0, ?s4)" by code_simp
  from c2_pass_atomic[of requires_score ?g "[?a, ?b]" ?s0 None ?s1 "[([], Some 0)]" "Inr 0" ?s4]
    good
  have every: "\<forall>(p, d) \<in> set (unseen_files (seen ?s0) [?a, ?b]).
              fst (add_hits requires_score ?g d []) = None
            \<and> map (make_hit ?g) (mol_strings d) = map Inr (snd (add_hits requires_score ?g d []))"
    by simp
  from bspec[OF every new]
  have "fst (add_hits requires_score ?g (snd ?b) []) = None" by simp
  moreover
  from c2_pass_atomic[of requires_score ?g "[?bad]" ?s0 "Some ValueError" ?s2 "[([], Some 0)]" "Inr 0" ?s4]
    bad
  have "db ?s2 = db ?s0" by blast
  moreover
  from c2_pass_atomic[of requires_score ?g "[]" ?s3 None ?s3 "[([], Some 0)]" "Inr 0" ?s4] loop
  have "prefix (db ?s3) (db ?s4)" by blast
  ultimately show ?thesis using good new bad loop by simp
qed

text \<open>
  The claim as written fails when one scan takes up two files and the second one fails: in
  the pass below \<open>a.sdf\<close> is read first, its one record parses and is stored, and the file is
  added to the set of seen files; then the score of \<open>b.sdf\<close> is no number, and the rollback
  takes the hit of \<open>a.sdf\<close> away as well.
\<close>

theorem c2_pass_atomic_counterexample:
  "add_hits requires_score \<lparr>complex_set = [''4agn''], status = PENDING\<rparr>
      ''HIT_A\<newline>> <Score>\<newline>12.5\<newline>\<newline>$$$$\<newline>'' []
    = (None, [\<lparr>name = ''HIT_A'', score = Some (PyFloat ''12.5''),
                 file_string = ''HIT_A\<newline>> <Score>\<newline>12.5\<newline>\<newline>$$$$\<newline>'',
                 file_type = ''sdf'', ensemble_scores = []\<rparr>])
   \<and> process_hits requires_score \<lparr>complex_set = [''4agn''], status = PENDING\<rparr>
      [(''a.sdf'', ''HIT_A\<newline>> <Score>\<newline>12.5\<newline>\<newline>$$$$\<newline>''),
       (''b.sdf'', ''HIT_C\<newline>> <Score>\<newline>n/a\<newline>\<newline>$$$$\<newline>'')]
      \<lparr>seen = {}, db = [], trace = [Popen]\<rparr>
    = (Some ValueError,
       \<lparr>seen = {''a.sdf''}, db = [], trace = [Popen, Scan, AddHits ''a.sdf'', AddHits ''b.sdf'']\<rparr>)"
  by code_simp

section \<open>Absent properties and failing casts\<close>

lemma make_hit_score_raises:
  "get_mol_string_prop ''Score'' mol_string (Some py_float) = Inl e \<Longrightarrow> make_hit g mol_string = Inl e"
  by (simp add: make_hit_def get_mol_string_name_first_line)

lemma collect_scores_raises:
  "n \<in> set names \<Longrightarrow> get_mol_string_prop (py_upper n) mol_string (Some py_float) = Inl e \<Longrightarrow>
   \<exists>e'. collect_scores names mol_string scores = Inl e'"
proof (induction names arbitrary: scores)
  case Nil
  then show ?case by simp
next
  case (Cons c cs)
  show ?case
  proof (cases "get_mol_string_prop (py_upper c) mol_string (Some py_float)")
    case (Inl e0)
    then show ?thesis by simp
  next
    case (Inr v)
    with Cons.prems have "n \<in> set cs" by auto
    from Cons.IH[OF this Cons.prems(2)] Inr show ?thesis by simp
  qed
qed

lemma make_hit_member_raises:
  assumes "1 < length (complex_set g)" and "n \<in> set (complex_set g)"
    and "get_mol_string_prop (py_upper n) mol_string (Some py_float) = Inl e"
  shows "\<exists>e'. make_hit g mol_string = Inl e'"
proof -
  from collect_scores_raises[OF assms(2,3)] obtain e' where
    "collect_scores (complex_set g) mol_string [] = Inl e'" by blast
  with assms(1) show ?thesis
    by (cases "get_mol_string_prop ''Score'' mol_string (Some py_float)")
       (simp_all add: make_hit_def get_mol_string_name_first_line)
qed

lemma add_hits_raises:
  "m \<in> set (mol_strings data) \<Longrightarrow> make_hit g m = Inl e \<Longrightarrow>
   fst (add_hits accepts g data table) \<noteq> None"
  unfolding add_hits_def by (rule save_hits_failing_record)

lemma process_files_raises:
  "map_of files hit_file = Some data \<Longrightarrow> hit_file \<notin> seen st \<Longrightarrow>
   fst (add_hits accepts g data []) \<noteq> None \<Longrightarrow>
   fst (process_files accepts g files st) \<noteq> None"
proof (induction files arbitrary: st)
  case Nil
  then show ?case by simp
next
  case (Cons entry others)
  obtain p d where entry: "entry = (p, d)" by (cases entry)
  show ?case
  proof (cases "p \<in> seen st")
    case True
    with Cons.prems(2) have "p \<noteq> hit_file" by auto
    with Cons.prems(1) entry have "map_of others hit_file = Some data" by simp
    from Cons.IH[OF this Cons.prems(2,3)] True entry show ?thesis by simp
  next
    case False
    show ?thesis
    proof (cases "fst (add_hits accepts g d [])")
      case (Some e)
      from process_files_raise[OF False Some] entry show ?thesis by simp
    next
      case None
      with Cons.prems(1,3) entry have ne: "p \<noteq> hit_file" by auto
      with Cons.prems(1) entry have m: "map_of others hit_file = Some data" by simp
      define st1 where "st1 = st\<lparr>seen := insert p (seen st),
                      db := db st @ snd (add_hits accepts g d []),
                      trace := trace st @ [AddHits p]\<rparr>"
      have "hit_file \<notin> seen st1" using Cons.prems(2) ne by (simp add: st1_def)
      from Cons.IH[OF m this Cons.prems(3)] process_files_next[OF False None] entry
      show ?thesis by (simp add: st1_def)
    qed
  qed
qed

lemma process_hits_raises:
  assumes "map_of files hit_file = Some data" and "hit_file \<notin> seen st"
    and "fst (add_hits accepts g data []) \<noteq> None"
  shows "\<exists>e st'. process_hits accepts g files st = (Some e, st') \<and> db st' = db st"
proof -
  obtain r0 st0 where pf: "process_files accepts g files (st\<lparr>trace := trace st @ [Scan]\<rparr>) = (r0, st0)"
    and ph: "process_hits accepts g files st = (r0, if r0 = None then st0 else st0\<lparr>db := db st\<rparr>)"
    by (rule process_hits_cases)
  have "hit_file \<notin> seen (st\<lparr>trace := trace st @ [Scan]\<rparr>)" using assms(2) by simp
  from process_files_raises[OF assms(1) this assms(3)] pf obtain e where "r0 = Some e" by auto
  with ph have "process_hits accepts g files st = (Some e, st0\<lparr>db := db st\<rparr>)
      \<and> db (st0\<lparr>db := db st\<rparr>) = db st" by simp
  then show ?thesis by blast
qed

lemma get_mol_string_prop_absent:
  "\<forall>element \<in> set (py_split ''> <'' mol_string). block_key element \<noteq> prop \<Longrightarrow>
   get_mol_string_prop prop mol_string cast_to = Inr None"
  unfolding get_mol_string_prop_def by (rule scan_elements_absent)

lemma get_mol_string_prop_cast:
  "get_mol_string_prop prop mol_string None = Inr (Some (PyStr val)) \<Longrightarrow>
   get_mol_string_prop prop mol_string (Some cast)
     = (case cast val of Inl e \<Rightarrow> Inl e | Inr v \<Rightarrow> Inr (Some v))"
  unfolding get_mol_string_prop_def by (rule scan_elements_cast)

lemma py_float_not_a_number: "py_float ''n/a'' = Inl ValueError"
  by code_simp

lemma get_mol_string_prop_None_iff:
  "get_mol_string_prop prop mol_string cast_to = Inr None
     \<longleftrightarrow> (\<forall>element \<in> set (py_split ''> <'' mol_string). block_key element \<noteq> prop)"
proof
  assume none: "get_mol_string_prop prop mol_string cast_to = Inr None"
  show "\<forall>element \<in> set (py_split ''> <'' mol_string). block_key element \<noteq> prop"
  proof (cases "find (\<lambda>element. block_key element = prop) (py_split ''> <'' mol_string)")
    case None
    then show ?thesis by (auto simp: find_None_iff)
  next
    case (Some element)
    with none have False
      unfolding get_mol_string_prop_def scan_elements_find
      by (auto split: list.splits option.splits sum.splits)
    then show ?thesis ..
  qed
next
  assume "\<forall>element \<in> set (py_split ''> <'' mol_string). block_key element \<noteq> prop"
  then show "get_mol_string_prop prop mol_string cast_to = Inr None"
    by (rule get_mol_string_prop_absent)
qed

lemma get_mol_string_prop_key_alone:
  "find (\<lambda>element. block_key element = prop) (py_split ''> <'' mol_string) = Some element \<Longrightarrow>
   property_pair element = [key] \<Longrightarrow>
   get_mol_string_prop prop mol_string cast_to = Inl IndexError"
  unfolding get_mol_string_prop_def scan_elements_find by simp

text \<open>
  C6, as amended. For every record and key, with or without a caster: extraction returns
  nothing exactly when no piece of the record between the markers \<open>> <\<close>, the text before the
  first marker included, has the key; the key of a piece is its text before the first \<open>>\<close>
  that ends a line, read after every \<open>$$$$\<close> has been deleted from the piece and trimmed.
  Absence in that sense is no error. The first piece with the key decides, and when it holds
  no \<open>>\<close> that ends a line, extraction raises \<open>IndexError\<close>: a record without any marker
  whose text is the key alone raises. When the key has a text and the float caster is
  supplied, and the text is no float literal, as \<open>n/a\<close> is none, extraction raises the error
  of the cast. That error is fatal for the pass that meets the record: when a file that a
  scan takes up holds a record whose score, or whose score for an ensemble member of a job
  with several members, fails to cast, the pass raises and the table of hits is what it was
  before the pass, so nothing of that file is stored.
\<close>

theorem c6_absent_and_cast:
  "(get_mol_string_prop pname mol_string cast_to = Inr None
      \<longleftrightarrow> (\<forall>element \<in> set (py_split ''> <'' mol_string). block_key element \<noteq> pname))
   \<and> (find (\<lambda>element. block_key element = pname) (py_split ''> <'' mol_string) = Some element
        \<and> property_pair element = [key] \<longrightarrow>
      get_mol_string_prop pname mol_string cast_to = Inl IndexError)
   \<and> (get_mol_string_prop pname mol_string None = Inr (Some (PyStr val))
        \<and> py_float val = Inl ValueError \<longrightarrow>
      get_mol_string_prop pname mol_string (Some py_float) = Inl ValueError)
   \<and> py_float ''n/a'' = Inl ValueError
   \<and> (map_of files hit_file = Some data \<and> hit_file \<notin> seen st \<and> m \<in> set (mol_strings data)
        \<and> (get_mol_string_prop ''Score'' m (Some py_float) = Inl e
           \<or> (1 < length (complex_set g) \<and> cmplx \<in> set (complex_set g)
               \<and> get_mol_string_prop (py_upper cmplx) m (Some py_float) = Inl e)) \<longrightarrow>
      (\<exists>e' st'. process_hits accepts g files st = (Some e', st') \<and> db st' = db st))"
proof (intro conjI impI)
  show "get_mol_string_prop pname mol_string cast_to = Inr None
      \<longleftrightarrow> (\<forall>element \<in> set (py_split ''> <'' mol_string). block_key element \<noteq> pname)"
    by (rule get_mol_string_prop_None_iff)
next
  assume "find (\<lambda>element. block_key element = pname) (py_split ''> <'' mol_string) = Some element
        \<and> property_pair element = [key]"
  then show "get_mol_string_prop pname mol_string cast_to = Inl IndexError"
    using get_mol_string_prop_key_alone[of pname mol_string element key cast_to] by blast
next
  assume "get_mol_string_prop pname mol_string None = Inr (Some (PyStr val))
      \<and> py_float val = Inl ValueError"
  then show "get_mol_string_prop pname mol_string (Some py_float) = Inl ValueError"
    using get_mol_string_prop_cast[of pname mol_string val py_float] by simp
next
  show "py_float ''n/a'' = Inl ValueError" by (rule py_float_not_a_number)
next
  assume a: "map_of files hit_file = Some data \<and> hit_file \<notin> seen st \<and> m \<in> set (mol_strings data)
        \<and> (get_mol_string_prop ''Score'' m (Some py_float) = Inl e
           \<or> (1 < length (complex_set g) \<and> cmplx \<in> set (complex_set g)
               \<and> get_mol_string_prop (py_upper cmplx) m (Some py_float) = Inl e))"
  then have "\<exists>e'. make_hit g m = Inl e'"
    using make_hit_score_raises[of m e g] make_hit_member_raises[of g cmplx m e] by blast
  then obtain e' where "make_hit g m = Inl e'" by blast
  with a have "fst (add_hits accepts g data []) \<noteq> None"
    using add_hits_raises[of m data g e' accepts "[]"] by blast
  with a show "\<exists>e' st'. process_hits accepts g files st = (Some e', st') \<and> db st' = db st"
    using process_hits_raises[of files hit_file data st accepts g] by blast
qed

theorem c6_absent_and_cast_witness:
  "map block_key (py_split ''> <'' ''HIT_A\<newline>> <Score>\<newline>12.5\<newline>\<newline>$$$$\<newline>'')
       = [''HIT_A'', ''Score'']
   \<and> get_mol_string_prop ''4AGN'' ''HIT_A\<newline>> <Score>\<newline>12.5\<newline>\<newline>$$$$\<newline>'' (Some py_float)
       = Inr None
   \<and> find (\<lambda>element. block_key element = ''Score'') (py_split ''> <'' ''Score\<newline>$$$$\<newline>'')
       = Some ''Score\<newline>$$$$\<newline>''
   \<and> property_pair ''Score\<newline>$$$$\<newline>'' = [''Score'']
   \<and> get_mol_string_prop ''Score'' ''Score\<newline>$$$$\<newline>'' (Some py_float) = Inl IndexError
   \<and> get_mol_string_prop ''Score'' ''HIT_B\<newline>> <Score>\<newline>n/a\<newline>\<newline>$$$$\<newline>'' None
       = Inr (Some (PyStr ''n/a''))
   \<and> get_mol_string_prop ''Score'' ''HIT_B\<newline>> <Score>\<newline>n/a\<newline>\<newline>$$$$\<newline>'' (Some py_float)
       = Inl ValueError
   \<and> map_of [(''a.sdf'', ''HIT_A\<newline>> <Score>\<newline>12.5\<newline>\<newline>$$$$\<newline>''),
              (''b.sdf'', ''HIT_C\<newline>> <Score>\<newline>5.0\<newline>\<newline>$$$$\<newline>HIT_B\<newline>> <Score>\<newline>n/a\<newline>\<newline>$$$$\<newline>'')]
        ''b.sdf''
       = Some ''HIT_C\<newline>> <Score>\<newline>5.0\<newline>\<newline>$$$$\<newline>HIT_B\<newline>> <Score>\<newline>n/a\<newline>\<newline>$$$$\<newline>''
   \<and> ''b.sdf'' \<notin> {''a.sdf''}
   \<and> ''HIT_B\<newline>> <Score>\<newline>n/a\<newline>\<newline>$$$$\<newline>''
       \<in> set (mol_strings ''HIT_C\<newline>> <Score>\<newline>5.0\<newline>\<newline>$$$$\<newline>HIT_B\<newline>> <Score>\<newline>n/a\<newline>\<newline>$$$$\<newline>'')
   \<and> process_hits requires_score \<lparr>complex_set = [''4agn''], status = PENDING\<rparr>
        [(''a.sdf'', ''HIT_A\<newline>> <Score>\<newline>12.5\<newline>\<newline>$$$$\<newline>''),
         (''b.sdf'', ''HIT_C\<newline>> <Score>\<newline>5.0\<newline>\<newline>$$$$\<newline>HIT_B\<newline>> <Score>\<newline>n/a\<newline>\<newline>$$$$\<newline>'')]
        \<lparr>seen = {''a.sdf''}, db = [], trace = [Popen]\<rparr>
       = (Some ValueError, \<lparr>seen = {''a.sdf''}, db = [], trace = [Popen, Scan, AddHits ''b.sdf'']\<rparr>)
   \<and> 1 < length [''4agn'', ''4agm''] \<and> ''4agn'' \<in> set [''4agn'', ''4agm'']
   \<and> get_mol_string_prop (py_upper ''4agn'')
        ''HIT_D\<newline>> <Score>\<newline>5.0\<newline>\<newline>> <4AGN>\<newline>n/a\<newline>\<newline>$$$$\<newline>'' (Some py_float)
       = Inl ValueError
   \<and> process_hits requires_score \<lparr>complex_set = [''4agn'', ''4agm''], status = PENDING\<rparr>
        [(''b.sdf'', ''HIT_D\<newline>> <Score>\<newline>5.0\<newline>\<newline>> <4AGN>\<newline>n/a\<newline>\<newline>$$$$\<newline>'')]
        \<lparr>seen = {''a.sdf''}, db = [], trace = [Popen]\<rparr>
       = (Some ValueError, \<lparr>seen = {''a.sdf''}, db = [], trace = [Popen, Scan, AddHits ''b.sdf'']\<rparr>)"
proof -
  let ?g = "\<lparr>complex_set = [''4agn''], status = PENDING\<rparr>"
  let ?g2 = "\<lparr>complex_set = [''4agn'', ''4agm''], status = PENDING\<rparr>"
  let ?ra = "''HIT_A\<newline>> <Score>\<newline>12.5\<newline>\<newline>$$$$\<newline>''"
  let ?rb = "''HIT_B\<newline>> <Score>\<newline>n/a\<newline>\<newline>$$$$\<newline>''"
  let ?rd = "''HIT_D\<newline>> <Score>\<newline>5.0\<newline>\<newline>> <4AGN>\<newline>n/a\<newline>\<newline>$$$$\<newline>''"
  let ?rs = "''Score\<newline>$$$$\<newline>''"
  let ?db = "''HIT_C\<newline>> <Score>\<newline>5.0\<newline>\<newline>$$$$\<newline>HIT_B\<newline>> <Score>\<newline>n/a\<newline>\<newline>$$$$\<newline>''"
  let ?files = "[(''a.sdf'', ?ra), (''b.sdf'', ?db)]"
  let ?s0 = "\<lparr>seen = {''a.sdf''}, db = [] :: hit list, trace = [Popen]\<rparr>"
  let ?s1 = "\<lparr>seen = {''a.sdf''}, db = [] :: hit list, trace = [Popen, Scan, AddHits ''b.sdf'']\<rparr>"
  have absent: "\<forall>element \<in> set (py_split ''> <'' ?ra). block_key element \<noteq> ''4AGN''"
    by code_simp
  have keys: "map block_key (py_split ''> <'' ?ra) = [''HIT_A'', ''Score'']" by code_simp
  have first: "find (\<lambda>element. block_key element = ''Score'') (py_split ''> <'' ?rs) = Some ?rs"
    by code_simp
  have alone: "property_pair ?rs = [''Score'']" by code_simp
  have raw: "get_mol_string_prop ''Score'' ?rb None = Inr (Some (PyStr ''n/a''))"
    by code_simp
  have nan: "py_float ''n/a'' = Inl ValueError" by code_simp
  have found: "map_of ?files ''b.sdf'' = Some ?db" by simp
  have unseen: "''b.sdf'' \<notin> seen ?s0" by simp
  have member: "?rb \<in> set (mol_strings ?db)" by code_simp
  have pass: "process_hits requires_score ?g ?files ?s0 = (Some ValueError, ?s1)" by code_simp
  have several: "1 < length (complex_set ?g2)" and one: "''4agn'' \<in> set (complex_set ?g2)"
    by simp_all
  have pass2: "process_hits requires_score ?g2 [(''b.sdf'', ?rd)] ?s0 = (Some ValueError, ?s1)"
    by code_simp
  from c6_absent_and_cast[where mol_string = ?ra and pname = "''4AGN''" and cast_to = "Some py_float"]
    absent
  have none: "get_mol_string_prop ''4AGN'' ?ra (Some py_float) = Inr None" by blast
  from c6_absent_and_cast[where mol_string = ?rs and pname = "''Score''" and cast_to = "Some py_float"
      and element = ?rs and key = "''Score''"]
    first alone
  have index: "get_mol_string_prop ''Score'' ?rs (Some py_float) = Inl IndexError" by blast
  from c6_absent_and_cast[where mol_string = ?rb and pname = "''Score''" and val = "''n/a''"]
    raw nan
  have raised: "get_mol_string_prop ''Score'' ?rb (Some py_float) = Inl ValueError" by blast
  from c6_absent_and_cast[where files = ?files and hit_file = "''b.sdf''" and data = ?db
      and st = ?s0 and m = ?rb and e = ValueError and g = ?g and accepts = requires_score]
    found unseen member raised
  have lost: "\<exists>e' st'. process_hits requires_score ?g ?files ?s0 = (Some e', st') \<and> db st' = db ?s0"
    by blast
  from c6_absent_and_cast[where mol_string = ?rd and pname = "''4AGN''" and val = "''n/a''"]
  have "(get_mol_string_prop ''4AGN'' ?rd None = Inr (Some (PyStr ''n/a''))
        \<and> py_float ''n/a'' = Inl ValueError \<longrightarrow>
      get_mol_string_prop ''4AGN'' ?rd (Some py_float) = Inl ValueError)" by blast
  moreover have "get_mol_string_prop ''4AGN'' ?rd None = Inr (Some (PyStr ''n/a''))" by code_simp
  moreover have "py_upper ''4agn'' = ''4AGN''" by code_simp
  ultimately have raised2: "get_mol_string_prop (py_upper ''4agn'') ?rd (Some py_float) = Inl ValueError"
    using nan by simp
  show ?thesis
    using keys none first alone index raw raised found unseen member pass several one raised2
      pass2 lost
    by simp
qed

text \<open>
  The claim as written fails for a record that has no marker at all and whose text is the
  key: the record below is the name line \<open>Score\<close> and the delimiter, the property \<open>Score\<close> is
  absent from it, and extraction raises \<open>IndexError\<close> instead of returning nothing.
\<close>

theorem c6_absent_and_cast_counterexample:
  "\<not> sublist ''> <'' ''Score\<newline>$$$$\<newline>''
   \<and> get_mol_string_prop ''Score'' ''Score\<newline>$$$$\<newline>'' None = Inl IndexError
   \<and> get_mol_string_prop ''Score'' ''Score\<newline>$$$$\<newline>'' (Some py_float) = Inl IndexError"
  by code_simp

end
